theory Spec2Isabelle
  imports Main "HOL-Library.Word"
begin

section \<open>Values, properties and conditions\<close>

text \<open>
  A Go \<^verbatim>\<open>interface{}\<close> value is a dynamic type together with a payload. The
  dynamic types listed are the ones \<^verbatim>\<open>isPkEmpty\<close> switches on; every other
  dynamic type is \<open>GoOther\<close>. Integers carry their machine width (\<^verbatim>\<open>int\<close> and
  \<^verbatim>\<open>uint\<close> are taken as 64 bits wide), floating-point values carry their IEEE 754
  bit pattern.
\<close>

datatype go_value =
    GoNil
  | GoString string
  | GoInt "64 word"
  | GoInt8 "8 word"
  | GoInt16 "16 word"
  | GoInt32 "32 word"
  | GoInt64 "64 word"
  | GoUint "64 word"
  | GoUint8 "8 word"
  | GoUint16 "16 word"
  | GoUint32 "32 word"
  | GoUint64 "64 word"
  | GoFloat32 "32 word"
  | GoFloat64 "64 word"
  | GoOther nat

text \<open>
  Modelled from the spec: the \<^verbatim>\<open>skyorm\<close> package (its \<^verbatim>\<open>Cond\<close>, \<^verbatim>\<open>Prop\<close>,
  \<^verbatim>\<open>Val\<close>, \<^verbatim>\<open>Store\<close> and \<^verbatim>\<open>Model\<close> interfaces and the \<^verbatim>\<open>CondType\<close> constants)
  is imported by \<^verbatim>\<open>postgres.go\<close> and is not part of it. A condition kind is one of the
  eight constants the source names, or any other value of the kind type.
\<close>

datatype cond_type =
    CondTypeAnd
  | CondTypeOr
  | CondTypeEq
  | CondTypeNeq
  | CondTypeLt
  | CondTypeLte
  | CondTypeGt
  | CondTypeGte
  | CondTypeOther nat

text \<open>
  A \<^verbatim>\<open>skyorm.Cond\<close> is the nil interface value (\<open>CondNil\<close>) or an object answering
  \<^verbatim>\<open>Type()\<close>, \<^verbatim>\<open>Prop().Name()\<close>, \<^verbatim>\<open>Val()\<close> and \<^verbatim>\<open>Children()\<close>, in this order
  in \<open>Cond\<close>. The compiler reads the children of a combinator only, and the property
  and value of a comparison only.
\<close>

datatype cond = CondNil | Cond cond_type string go_value "cond list"

text \<open>A \<^verbatim>\<open>skyorm.Prop\<close>: its \<^verbatim>\<open>Name()\<close> and \<^verbatim>\<open>IsPk()\<close>.\<close>

record property =
  Name :: string
  IsPk :: bool

text \<open>A \<^verbatim>\<open>skyorm.Val\<close>: the name of its \<^verbatim>\<open>Prop()\<close> and its \<^verbatim>\<open>Val()\<close>.\<close>

record val =
  ValProp :: string
  ValVal :: go_value

text \<open>A \<^verbatim>\<open>skyorm.Store\<close>: its \<^verbatim>\<open>Name()\<close>, \<^verbatim>\<open>Props()\<close> and \<^verbatim>\<open>Pk()\<close>.\<close>

record store =
  StoreName :: string
  StoreProps :: "property list"
  StorePk :: property

text \<open>
  A \<^verbatim>\<open>skyorm.Model\<close>: what its methods \<^verbatim>\<open>OrmStore().Name()\<close>, \<^verbatim>\<open>OrmProps()\<close>,
  \<^verbatim>\<open>OrmPkProp()\<close>, \<^verbatim>\<open>OrmVals()\<close> and \<^verbatim>\<open>OrmPk()\<close> return. The destination that
  \<^verbatim>\<open>OrmPkPointer()\<close> designates is the storage \<open>OrmPk\<close> reads.
\<close>

record model =
  OrmStore :: string
  OrmProps :: "property list"
  OrmPkProp :: property
  OrmVals :: "go_value list"
  OrmPk :: go_value

section \<open>Library functions of Go\<close>

text \<open>\<^verbatim>\<open>strconv.Itoa\<close>: the decimal digits, most significant first, after a minus sign if any.\<close>

definition digit_char :: "nat \<Rightarrow> char" where
  "digit_char d = ''0123456789'' ! d"

function digits_of :: "nat \<Rightarrow> string" where
  "digits_of n =
     (if n < 10 then [digit_char n] else digits_of (n div 10) @ [digit_char (n mod 10)])"
  by pat_completeness auto
termination
  by (relation "measure id") auto

declare digits_of.simps [simp del]

definition Itoa :: "int \<Rightarrow> string" where
  "Itoa i = (if i < 0 then CHR ''-'' # digits_of (nat (- i)) else digits_of (nat i))"

text \<open>\<^verbatim>\<open>strings.Join(elems, sep)\<close>.\<close>

fun Join :: "string list \<Rightarrow> string \<Rightarrow> string" where
  "Join [] sep = []"
| "Join [x] sep = x"
| "Join (x # y # ys) sep = x @ sep @ Join (y # ys) sep"

text \<open>
  \<^verbatim>\<open>fmt.Sprintf\<close> for the verbs \<^verbatim>\<open>%s\<close> and \<^verbatim>\<open>%d\<close>, the only ones in the formats
  of this program, with what Go prints for a missing operand, an operand of the wrong
  type, a format ending in \<^verbatim>\<open>%\<close> and operands left over; \<^verbatim>\<open>%%\<close> prints a
  percent sign. Any other verb is printed as a bad verb.
\<close>

datatype fmt_arg = ArgString string | ArgInt int

fun bad_arg :: "fmt_arg \<Rightarrow> string" where
  "bad_arg (ArgString s) = ''string='' @ s"
| "bad_arg (ArgInt i) = ''int='' @ Itoa i"

fun Sprintf :: "string \<Rightarrow> fmt_arg list \<Rightarrow> string" where
  "Sprintf [] [] = []"
| "Sprintf [] (a # as) = ''%!(EXTRA '' @ Join (map bad_arg (a # as)) '', '' @ '')''"
| "Sprintf [c] as = (if c = CHR ''%'' then ''%!(NOVERB)'' else c # Sprintf [] as)"
| "Sprintf (c # v # fmt) as =
     (if c \<noteq> CHR ''%'' then c # Sprintf (v # fmt) as
      else if v = CHR ''%'' then CHR ''%'' # Sprintf fmt as
      else (case as of
              [] \<Rightarrow> ''%!'' @ [v] @ ''(MISSING)'' @ Sprintf fmt []
            | a # as' \<Rightarrow>
                (case a of
                   ArgString s \<Rightarrow>
                     (if v = CHR ''s'' then s else ''%!'' @ [v] @ ''('' @ bad_arg a @ '')'')
                 | ArgInt i \<Rightarrow>
                     (if v = CHR ''d'' then Itoa i else ''%!'' @ [v] @ ''('' @ bad_arg a @ '')''))
                @ Sprintf fmt as'))"

section \<open>The condition compiler\<close>

text \<open>
  The counter \<^verbatim>\<open>n *int\<close> is \<open>None\<close> for the nil pointer and \<open>Some k\<close> for a pointer
  to a cell holding \<open>k\<close>. A function that writes through the pointer returns the cell's
  new content beside its result. The counter grows by one for each comparison compiled
  and stays far below the bound of \<^verbatim>\<open>int\<close>, so it is an unbounded integer here.
\<close>

definition newN :: int where
  "newN = 1"

fun parseRegularCond :: "cond_type \<Rightarrow> string \<Rightarrow> go_value \<Rightarrow> int \<Rightarrow> (string \<times> go_value) \<times> int" where
  "parseRegularCond t name v n =
     (let n' = n + 1 in
      (case t of
         CondTypeEq \<Rightarrow> (name @ '' = $'' @ Itoa (n' - 1), v)
       | CondTypeNeq \<Rightarrow> (name @ '' <> $'' @ Itoa (n' - 1), v)
       | CondTypeLt \<Rightarrow> (name @ '' < $'' @ Itoa (n' - 1), v)
       | CondTypeLte \<Rightarrow> (name @ '' <= $'' @ Itoa (n' - 1), v)
       | CondTypeGt \<Rightarrow> (name @ '' > $'' @ Itoa (n' - 1), v)
       | CondTypeGte \<Rightarrow> (name @ '' >= $'' @ Itoa (n' - 1), v)
       | _ \<Rightarrow> ('''', GoNil),
       n'))"

text \<open>
  \<open>parseCond\<close> returns the fragment, the bound values and the counter: the pointer it
  was given with the cell's content after the call, or the cell it made itself when it
  was given nil. \<open>parseCondChildren_loop\<close> is the \<^verbatim>\<open>for\<close> loop of
  \<^verbatim>\<open>parseCondChildren\<close>: it returns the slice \<^verbatim>\<open>cl\<close> of child fragments, one
  entry per child, and the values \<^verbatim>\<open>vl\<close>. The loop always passes a cell, so
  \<open>parseCond\<close> hands one back.
\<close>

function parseCond :: "cond \<Rightarrow> int option \<Rightarrow> (string \<times> go_value list) \<times> int option"
  and parseCondChildren :: "cond list \<Rightarrow> string \<Rightarrow> int \<Rightarrow> (string \<times> go_value list) \<times> int"
  and parseCondChildren_loop :: "cond list \<Rightarrow> int \<Rightarrow> (string list \<times> go_value list) \<times> int"
where
  "parseCond CondNil n = (('''', []), n)"
| "parseCond (Cond t name v children) n =
     (let n0 = (case n of None \<Rightarrow> newN | Some k \<Rightarrow> k) in
      if t = CondTypeAnd \<or> t = CondTypeOr then
        (let sep = (if t = CondTypeOr then '' OR '' else '' AND '');
             ((s, vs), n1) = parseCondChildren children sep n0;
             sl = [] @ [s];
             vl = [] @ vs
         in if length vl = 0 then (('''', vl), Some n1)
            else ((Join sl sep, vl), Some n1))
      else
        (let ((s, v'), n1) = parseRegularCond t name v n0
         in ((s, [v']), Some n1)))"
| "parseCondChildren children sep n =
     (let ((cl, vl), n') = parseCondChildren_loop children n
      in ((''('' @ Join cl sep @ '')'', vl), n'))"
| "parseCondChildren_loop [] n = (([], []), n)"
| "parseCondChildren_loop (child # rest) n =
     (let ((c, v), p) = parseCond child (Some n);
          n1 = (case p of None \<Rightarrow> n | Some k \<Rightarrow> k);
          ((cl, vl), n2) = parseCondChildren_loop rest n1
      in ((c # cl, v @ vl), n2))"
  by pat_completeness auto
termination
  by (relation "measure (\<lambda>x. case x of
            Inl (c, n) \<Rightarrow> 2 * size c
          | Inr (Inl (cs, sep, n)) \<Rightarrow> 2 * size_list size cs + 1
          | Inr (Inr (cs, n)) \<Rightarrow> 2 * size_list size cs)") auto

section \<open>The statement builder\<close>

text \<open>
  A run-time panic of Go ends the call; it is the left summand of a result. The three
  kinds are a failed type assertion, \<^verbatim>\<open>make\<close> with a negative length or capacity,
  and an index out of range.
\<close>

datatype panic = InterfaceConversion | MakeSliceOutOfRange | IndexOutOfRange

text \<open>
  \<^verbatim>\<open>x == 0\<close> on a \<^verbatim>\<open>float64\<close>: true of both zeros, the bit patterns with every
  bit but the sign clear.
\<close>

definition float64_eq_zero :: "64 word \<Rightarrow> bool" where
  "float64_eq_zero w = (w = 0 \<or> w = 0x8000000000000000)"

text \<open>
  \<^verbatim>\<open>isPkEmpty\<close>. The type switch chooses the branch by the dynamic type; the
  one-result assertions \<^verbatim>\<open>pk.(int64)\<close>, \<^verbatim>\<open>pk.(uint64)\<close> and \<^verbatim>\<open>pk.(float64)\<close>
  inside the branches panic unless the dynamic type is exactly the asserted one.
\<close>

fun isPkEmpty :: "go_value \<Rightarrow> panic + bool" where
  "isPkEmpty (GoString s) = Inr (s = [])"
| "isPkEmpty (GoInt w) = Inl InterfaceConversion"
| "isPkEmpty (GoInt8 w) = Inl InterfaceConversion"
| "isPkEmpty (GoInt16 w) = Inl InterfaceConversion"
| "isPkEmpty (GoInt32 w) = Inl InterfaceConversion"
| "isPkEmpty (GoInt64 w) = Inr (w = 0)"
| "isPkEmpty (GoUint w) = Inl InterfaceConversion"
| "isPkEmpty (GoUint8 w) = Inl InterfaceConversion"
| "isPkEmpty (GoUint16 w) = Inl InterfaceConversion"
| "isPkEmpty (GoUint32 w) = Inl InterfaceConversion"
| "isPkEmpty (GoUint64 w) = Inr (w = 0)"
| "isPkEmpty (GoFloat32 w) = Inl InterfaceConversion"
| "isPkEmpty (GoFloat64 w) = Inr (float64_eq_zero w)"
| "isPkEmpty GoNil = Inr False"
| "isPkEmpty (GoOther k) = Inr False"

text \<open>
  \<^verbatim>\<open>buildWhere\<close>: the format grows by \<^verbatim>\<open>" WHERE %s"\<close> when the compiled fragment
  is not empty.
\<close>

definition buildWhere ::
  "cond \<Rightarrow> string \<Rightarrow> int option \<Rightarrow> fmt_arg list \<Rightarrow> string \<times> go_value list" where
  "buildWhere condition query n queryValues =
     (let ((condWhere, condValues), n') = parseCond condition n
      in if condWhere \<noteq> []
         then (Sprintf (query @ '' WHERE %s'') (queryValues @ [ArgString condWhere]), condValues)
         else (Sprintf query queryValues, condValues))"

text \<open>
  \<^verbatim>\<open>buildUpdateProps\<close>. The loop assigns the index to the variable \<^verbatim>\<open>i\<close>
  declared before it; \<open>buildUpdateProps_loop vs idx i\<close> runs the iterations from index
  \<open>idx\<close> on, \<open>i\<close> being the variable's value so far, and returns its last value.
\<close>

fun buildUpdateProps_loop :: "val list \<Rightarrow> int \<Rightarrow> int \<Rightarrow> string list \<times> go_value list \<times> int" where
  "buildUpdateProps_loop [] idx i = ([], [], i)"
| "buildUpdateProps_loop (v # vs) idx i =
     (let (ls, lv, i') = buildUpdateProps_loop vs (idx + 1) idx
      in ((ValProp v @ '' = $'' @ Itoa (idx + 1)) # ls, ValVal v # lv, i'))"

definition buildUpdateProps :: "val list \<Rightarrow> int \<times> string \<times> go_value list" where
  "buildUpdateProps values =
     (let (ls, lv, i) = buildUpdateProps_loop values 0 0
      in (i + 2, Join ls '', '', lv))"

text \<open>
  \<^verbatim>\<open>buildQueryProperties\<close>. The slice \<^verbatim>\<open>l\<close> has \<^verbatim>\<open>ln\<close> empty strings at first;
  the loop writes the names at the indices 0, 1, ... in turn.
\<close>

fun buildQueryProperties_loop ::
  "property list \<Rightarrow> bool \<Rightarrow> string list \<Rightarrow> nat \<Rightarrow> panic + string list" where
  "buildQueryProperties_loop [] isSerial l c = Inr l"
| "buildQueryProperties_loop (p # ps) isSerial l c =
     (if isSerial \<and> IsPk p then buildQueryProperties_loop ps isSerial l c
      else if c \<ge> length l then Inl IndexOutOfRange
      else buildQueryProperties_loop ps isSerial (l[c := Name p]) (c + 1))"

definition buildQueryProperties :: "property list \<Rightarrow> bool \<Rightarrow> panic + string" where
  "buildQueryProperties properties isSerial =
     (let ln = int (length properties) - (if isSerial then 1 else 0)
      in if ln < 0 then Inl MakeSliceOutOfRange
         else (case buildQueryProperties_loop properties isSerial (replicate (nat ln) []) 0 of
                 Inl e \<Rightarrow> Inl e
               | Inr l \<Rightarrow> Inr (Join l '', '')))"

definition buildInsertPlaceholders :: "int \<Rightarrow> panic + string" where
  "buildInsertPlaceholders n =
     (if n < 0 then Inl MakeSliceOutOfRange
      else Inr (Join (map (\<lambda>i. ''$'' @ Itoa i) [1..n]) '', ''))"

text \<open>
  The SQL engine is a parameter: a function from its state, the statement text and the
  bound values to its answer and its next state. An error of the engine is opaque. A
  row answers \<^verbatim>\<open>Err()\<close> and \<^verbatim>\<open>Scan\<close>; a scan fails or stores a value in its
  destination. Logging does not affect any result and is left out. A statement handed
  to the engine is recorded as the pair of its text and its bound values.
\<close>

datatype error = Error string

record row =
  RowErr :: "error option"
  RowScan :: "error + go_value"

type_synonym statement = "string \<times> go_value list"

type_synonym 'db query_row = "'db \<Rightarrow> string \<Rightarrow> go_value list \<Rightarrow> row \<times> 'db"

type_synonym 'db query = "'db \<Rightarrow> string \<Rightarrow> go_value list \<Rightarrow> (error + (error + model) list) \<times> 'db"

type_synonym 'db exec = "'db \<Rightarrow> string \<Rightarrow> go_value list \<Rightarrow> error option \<times> 'db"

text \<open>
  \<^verbatim>\<open>Put\<close>. \<open>Put_values\<close> is the loop that copies the values of the properties
  other than the primary key; \<open>Put_iter\<close> is one iteration of the loop over the
  models. It returns the statements handed to the engine, the engine's state, the model
  and how the iteration ended: with a panic, with the error \<^verbatim>\<open>Put\<close> returns, or
  normally (\<open>Inr None\<close>).
\<close>

fun Put_values :: "go_value list \<Rightarrow> nat \<Rightarrow> property list \<Rightarrow> go_value list \<Rightarrow> panic + go_value list" where
  "Put_values [] i props values = Inr values"
| "Put_values (v # vs) i props values =
     (if i \<ge> length props then Inl IndexOutOfRange
      else if IsPk (props ! i) then Put_values vs (i + 1) props values
      else Put_values vs (i + 1) props (values @ [v]))"

definition Put_iter ::
  "'db query_row \<Rightarrow> 'db \<Rightarrow> model \<Rightarrow> statement list \<times> 'db \<times> model \<times> (panic + error option)" where
  "Put_iter db st m =
     (case isPkEmpty (OrmPk m) of
        Inl e \<Rightarrow> ([], st, m, Inl e)
      | Inr isSerial \<Rightarrow>
          (let vl = int (length (OrmVals m)) - (if isSerial then 1 else 0) in
           case buildQueryProperties (OrmProps m) isSerial of
             Inl e \<Rightarrow> ([], st, m, Inl e)
           | Inr cols \<Rightarrow>
               (case buildInsertPlaceholders vl of
                  Inl e \<Rightarrow> ([], st, m, Inl e)
                | Inr phs \<Rightarrow>
                    (let query = Sprintf ''INSERT INTO %s (%s) VALUES (%s) RETURNING %s''
                           [ArgString (OrmStore m), ArgString cols, ArgString phs,
                            ArgString (Name (OrmPkProp m))]
                     in case (if isSerial
                              then (if vl < 0 then Inl MakeSliceOutOfRange
                                    else Put_values (OrmVals m) 0 (OrmProps m) [])
                              else Inr (OrmVals m)) of
                          Inl e \<Rightarrow> ([], st, m, Inl e)
                        | Inr values \<Rightarrow>
                            (let (r, st') = db st query values in
                             case RowErr r of
                               Some e \<Rightarrow> ([(query, values)], st', m, Inr (Some e))
                             | None \<Rightarrow>
                                 (case RowScan r of
                                    Inl e \<Rightarrow> ([(query, values)], st', m, Inr (Some e))
                                  | Inr k \<Rightarrow>
                                      ([(query, values)], st', m\<lparr>OrmPk := k\<rparr>, Inr None)))))))"

fun Put ::
  "'db query_row \<Rightarrow> 'db \<Rightarrow> model list \<Rightarrow> statement list \<times> 'db \<times> model list \<times> (panic + error option)" where
  "Put db st [] = ([], st, [], Inr None)"
| "Put db st (m # ms) =
     (let (q, st', m', r) = Put_iter db st m
      in if r = Inr None
         then (let (qs, st'', ms', r') = Put db st' ms in (q @ qs, st'', m' # ms', r'))
         else (q, st', m' # ms, r))"

text \<open>
  \<^verbatim>\<open>Find\<close>. The engine answers an error or the rows, each of them already as the
  outcome of scanning it into a fresh model of the store; the first scan that fails
  ends the call with its error.
\<close>

fun Find_rows :: "(error + model) list \<Rightarrow> model list \<Rightarrow> error + model list" where
  "Find_rows [] l = Inr l"
| "Find_rows (Inl e # rs) l = Inl e"
| "Find_rows (Inr m # rs) l = Find_rows rs (l @ [m])"

definition Find ::
  "'db query \<Rightarrow> 'db \<Rightarrow> store \<Rightarrow> cond \<Rightarrow> int \<Rightarrow> int
     \<Rightarrow> statement list \<times> 'db \<times> (panic + error + model list)" where
  "Find db st store condition limit offset =
     (case buildQueryProperties (StoreProps store) False of
        Inl e \<Rightarrow> ([], st, Inl e)
      | Inr cols \<Rightarrow>
          (let (query, args) = buildWhere condition ''SELECT %s FROM %s'' None
                 [ArgString cols, ArgString (StoreName store)];
               query = (if limit > 0
                        then query @ Sprintf '' LIMIT %d OFFSET %d'' [ArgInt limit, ArgInt offset]
                        else query);
               (res, st') = db st query args
           in case res of
                Inl err \<Rightarrow> ([(query, args)], st', Inr (Inl err))
              | Inr rows \<Rightarrow> ([(query, args)], st', Inr (Find_rows rows []))))"

text \<open>\<^verbatim>\<open>Update\<close> and \<^verbatim>\<open>Delete\<close>.\<close>

definition Update ::
  "'db exec \<Rightarrow> 'db \<Rightarrow> store \<Rightarrow> cond \<Rightarrow> val list \<Rightarrow> statement list \<times> 'db \<times> error option" where
  "Update db st store condition values =
     (let (cursor, updateString, updateValues) = buildUpdateProps values;
          (query, args) = buildWhere condition ''UPDATE %s SET %s'' (Some cursor)
            [ArgString (StoreName store), ArgString updateString];
          updateValues = updateValues @ args;
          (err, st') = db st query updateValues
      in ([(query, updateValues)], st', err))"

definition Delete ::
  "'db exec \<Rightarrow> 'db \<Rightarrow> store \<Rightarrow> cond \<Rightarrow> statement list \<times> 'db \<times> error option" where
  "Delete db st store condition =
     (let (query, args) = buildWhere condition ''DELETE FROM %s'' None [ArgString (StoreName store)];
          (err, st') = db st query args
      in ([(query, args)], st', err))"

section \<open>Notions of the specification\<close>

text \<open>
  The comparisons of a condition tree from left to right, depth first: kind, property
  name and bound value of every node that is not a combinator. A nil condition has none.
\<close>

fun leaves :: "cond \<Rightarrow> (cond_type \<times> string \<times> go_value) list" where
  "leaves CondNil = []"
| "leaves (Cond t name v children) =
     (if t = CondTypeAnd \<or> t = CondTypeOr then concat (map leaves children) else [(t, name, v)])"

text \<open>The six supported comparison kinds.\<close>

fun supported :: "cond_type \<Rightarrow> bool" where
  "supported CondTypeEq = True"
| "supported CondTypeNeq = True"
| "supported CondTypeLt = True"
| "supported CondTypeLte = True"
| "supported CondTypeGt = True"
| "supported CondTypeGte = True"
| "supported t = False"

text \<open>
  What the compiler binds for a comparison: its value when the kind is supported, nil
  otherwise. A plain comparison is one of a supported kind whose property name has no
  dollar sign in it.
\<close>

definition leaf_value :: "cond_type \<times> string \<times> go_value \<Rightarrow> go_value" where
  "leaf_value l = (case l of (t, name, v) \<Rightarrow> if supported t then v else GoNil)"

definition plain_leaf :: "cond_type \<times> string \<times> go_value \<Rightarrow> bool" where
  "plain_leaf l = (case l of (t, name, v) \<Rightarrow> supported t \<and> CHR ''$'' \<notin> set name)"

text \<open>
  The text of the comparison that is the i-th of the traversal: its property name, the
  symbol of its kind and the placeholder \<open>$i\<close>; a comparison of an unsupported kind has
  the empty text. \<open>numbered_from i ls\<close> gives the comparisons \<open>ls\<close> the numbers
  \<open>i\<close>, \<open>i + 1\<close>, ... from left to right, unsupported ones included.
\<close>

fun symbol :: "cond_type \<Rightarrow> string" where
  "symbol CondTypeEq = ''=''"
| "symbol CondTypeNeq = ''<>''"
| "symbol CondTypeLt = ''<''"
| "symbol CondTypeLte = ''<=''"
| "symbol CondTypeGt = ''>''"
| "symbol CondTypeGte = ''>=''"
| "symbol t = []"

definition leaf_text :: "int \<Rightarrow> cond_type \<times> string \<times> go_value \<Rightarrow> string" where
  "leaf_text i l =
     (case l of (t, name, v) \<Rightarrow>
        if supported t then name @ '' '' @ symbol t @ '' $'' @ Itoa i else [])"

fun numbered_from :: "int \<Rightarrow> (cond_type \<times> string \<times> go_value) list \<Rightarrow> string list" where
  "numbered_from i [] = []"
| "numbered_from i (l # ls) = leaf_text i l # numbered_from (i + 1) ls"

text \<open>
  The layout of a fragment: \<open>place c ts\<close> puts the texts \<open>ts\<close> at the comparisons of
  \<open>c\<close>, from left to right. A comparison takes its text; a combinator that has a text
  to place gives each child the texts of the child's own comparisons and joins the
  children's results, one entry per child, inside parentheses; a combinator with no text
  to place is empty.
\<close>

function place :: "cond \<Rightarrow> string list \<Rightarrow> string"
  and place_children :: "cond list \<Rightarrow> string list \<Rightarrow> string list"
where
  "place CondNil ts = []"
| "place (Cond t name v children) ts =
     (if t = CondTypeAnd \<or> t = CondTypeOr
      then (if ts = [] then []
            else ''('' @ Join (place_children children ts)
                                (if t = CondTypeOr then '' OR '' else '' AND '') @ '')'')
      else (case ts of [] \<Rightarrow> [] | x # xs \<Rightarrow> x))"
| "place_children [] ts = []"
| "place_children (c # cs) ts =
     place c (take (length (leaves c)) ts) # place_children cs (drop (length (leaves c)) ts)"
  by pat_completeness auto
termination
  by (relation "measure (\<lambda>x. case x of
            Inl (c, ts) \<Rightarrow> 2 * size c
          | Inr (cs, ts) \<Rightarrow> 2 * size_list size cs + 1)") auto

text \<open>
  The placeholders of a SQL text, in order of appearance: for every dollar sign followed
  by a decimal digit, the number its digits spell.
\<close>

definition is_digit :: "char \<Rightarrow> bool" where
  "is_digit c = (c \<in> set ''0123456789'')"

definition digit_val :: "char \<Rightarrow> nat" where
  "digit_val c = of_char c - 48"

definition number_of :: "string \<Rightarrow> nat" where
  "number_of ds = foldl (\<lambda>a c. 10 * a + digit_val c) 0 ds"

fun placeholders :: "string \<Rightarrow> int list" where
  "placeholders [] = []"
| "placeholders (c # cs) =
     (if c = CHR ''$'' \<and> takeWhile is_digit cs \<noteq> []
      then int (number_of (takeWhile is_digit cs)) # placeholders cs
      else placeholders cs)"

text \<open>
  A well-formed model has one value per property, exactly one primary-key property, which
  is the one \<^verbatim>\<open>OrmPkProp()\<close> returns, and \<^verbatim>\<open>OrmPk()\<close> is the value of that
  property. The INSERT statement of the specification for given columns and values:
  \<^verbatim>\<open>INSERT INTO <table> (<cols>) VALUES ($1, ..., $n) RETURNING <pk-col>\<close>, with the
  primary key left out of the columns and of the values when the key is generated by the
  server.
\<close>

definition well_formed :: "model \<Rightarrow> bool" where
  "well_formed m =
     (length (OrmVals m) = length (OrmProps m)
      \<and> length (filter IsPk (OrmProps m)) = 1
      \<and> OrmPkProp m \<in> set (OrmProps m)
      \<and> IsPk (OrmPkProp m)
      \<and> list_all (\<lambda>(p, v). IsPk p \<longrightarrow> v = OrmPk m) (zip (OrmProps m) (OrmVals m)))"

definition insert_text :: "model \<Rightarrow> property list \<Rightarrow> go_value list \<Rightarrow> string" where
  "insert_text m cols vs =
     ''INSERT INTO '' @ OrmStore m
       @ '' ('' @ Join (map Name cols) '', ''
       @ '') VALUES ('' @ Join (map (\<lambda>i. ''$'' @ Itoa i) [1..int (length vs)]) '', ''
       @ '') RETURNING '' @ Name (OrmPkProp m)"

definition insert_statement :: "model \<Rightarrow> bool \<Rightarrow> statement" where
  "insert_statement m serial =
     (if serial
      then (insert_text m (filter (\<lambda>p. \<not> IsPk p) (OrmProps m))
              (map snd (filter (\<lambda>(p, v). \<not> IsPk p) (zip (OrmProps m) (OrmVals m)))),
            map snd (filter (\<lambda>(p, v). \<not> IsPk p) (zip (OrmProps m) (OrmVals m))))
      else (insert_text m (OrmProps m) (OrmVals m), OrmVals m))"

section \<open>Decimal numerals and placeholders\<close>

text \<open>Evaluating \<open>Itoa\<close> on literals.\<close>

lemma digits_of_numeral [simp]:
  "digits_of (numeral k) =
     (if (numeral k :: nat) < 10 then [digit_char (numeral k)]
      else digits_of (numeral k div 10) @ [digit_char (numeral k mod 10)])"
  by (rule digits_of.simps)

lemma digits_of_0 [simp]: "digits_of 0 = ''0''"
  by (simp add: digits_of.simps [of 0] digit_char_def)

lemma digits_of_Suc_0 [simp]: "digits_of (Suc 0) = ''1''"
  by (simp add: digits_of.simps [of "Suc 0"] digit_char_def)

lemma digit_char_0 [simp]: "digit_char 0 = CHR ''0''"
  by (simp add: digit_char_def)

lemma digit_char_Suc_0 [simp]: "digit_char (Suc 0) = CHR ''1''"
  by (simp add: digit_char_def)

lemma digit_char_numeral [simp]: "digit_char (numeral k) = ''0123456789'' ! numeral k"
  by (simp add: digit_char_def)

lemma Itoa_numeral [simp]: "Itoa (numeral k) = digits_of (numeral k)"
  by (simp add: Itoa_def)

lemma Itoa_neg_numeral [simp]: "Itoa (- numeral k) = CHR ''-'' # digits_of (numeral k)"
  by (simp add: Itoa_def)

lemma Itoa_0 [simp]: "Itoa 0 = ''0''"
  by (simp add: Itoa_def)

lemma Itoa_1 [simp]: "Itoa 1 = ''1''"
  by (simp add: Itoa_def)

lemma digit_char_props:
  assumes "d < 10"
  shows "is_digit (digit_char d)" and "digit_val (digit_char d) = d" and "digit_char d \<noteq> CHR ''$''"
proof -
  from assms have "d \<in> {0, 1, 2, 3, 4, 5, 6, 7, 8, 9}" by auto
  then show "is_digit (digit_char d)" and "digit_val (digit_char d) = d"
    and "digit_char d \<noteq> CHR ''$''"
    by (auto simp: digit_char_def is_digit_def digit_val_def)
qed

lemma digits_of_all_digits: "\<forall>c \<in> set (digits_of n). is_digit c \<and> c \<noteq> CHR ''$''"
proof (induction n rule: digits_of.induct)
  case (1 n)
  show ?case
  proof (cases "n < 10")
    case True
    then show ?thesis by (simp add: digits_of.simps [of n] digit_char_props)
  next
    case False
    then have "n mod 10 < 10" by simp
    with False 1 show ?thesis by (simp add: digits_of.simps [of n] digit_char_props)
  qed
qed

lemma digits_of_not_Nil: "digits_of n \<noteq> []"
  by (simp add: digits_of.simps [of n])

lemma number_of_snoc: "number_of (ds @ [c]) = 10 * number_of ds + digit_val c"
  by (simp add: number_of_def)

lemma number_of_digits_of: "number_of (digits_of n) = n"
proof (induction n rule: digits_of.induct)
  case (1 n)
  show ?case
  proof (cases "n < 10")
    case True
    then show ?thesis by (simp add: digits_of.simps [of n] digit_char_props number_of_def)
  next
    case False
    then have "n mod 10 < 10" by simp
    with False 1 show ?thesis
      by (simp add: digits_of.simps [of n] digit_char_props number_of_snoc)
  qed
qed

lemma placeholders_no_dollar: "CHR ''$'' \<notin> set xs \<Longrightarrow> placeholders (xs @ ys) = placeholders ys"
  by (induction xs) auto

lemma placeholders_no_dollar': "CHR ''$'' \<notin> set xs \<Longrightarrow> placeholders xs = []"
  using placeholders_no_dollar [of xs "[]"] by simp

lemma takeWhile_append_stop:
  "takeWhile P ys = [] \<Longrightarrow> takeWhile P (xs @ ys) = takeWhile P xs"
  by (induction xs) auto

lemma placeholders_append:
  "takeWhile is_digit ys = [] \<Longrightarrow> placeholders (xs @ ys) = placeholders xs @ placeholders ys"
  by (induction xs) (auto simp: takeWhile_append_stop)

lemma placeholders_dollar_Itoa:
  assumes "0 \<le> k"
  shows "placeholders (CHR ''$'' # Itoa k) = [k]"
proof -
  have tw: "takeWhile is_digit (digits_of (nat k)) = digits_of (nat k)"
    using digits_of_all_digits [of "nat k"] by (simp add: takeWhile_eq_all_conv)
  have nd: "placeholders (digits_of (nat k)) = []"
    using digits_of_all_digits [of "nat k"] by (intro placeholders_no_dollar') auto
  from assms show ?thesis
    by (simp add: Itoa_def tw nd digits_of_not_Nil number_of_digits_of)
qed

section \<open>The counter\<close>

lemma parseRegularCond_counter: "snd (parseRegularCond t name v n) = n + 1"
  by (simp add: Let_def)

lemma counter_advance:
  "snd (parseCond c n) =
     (if c = CondNil then n
      else Some ((case n of None \<Rightarrow> newN | Some k \<Rightarrow> k) + int (length (leaves c))))"
  "snd (parseCondChildren cs sep k) = k + int (length (concat (map leaves cs)))"
  "snd (parseCondChildren_loop cs k) = k + int (length (concat (map leaves cs)))"
proof (induction c n and cs sep k and cs k
    rule: parseCond_parseCondChildren_parseCondChildren_loop.induct)
  case (1 n)
  then show ?case by simp
next
  case (2 t name v children n)
  then show ?case
    by (simp add: Let_def split_beta parseRegularCond_counter del: parseRegularCond.simps)
next
  case (3 children sep n)
  then show ?case by (simp add: Let_def split_beta)
next
  case (4 n)
  then show ?case by simp
next
  case (5 child rest n)
  have rest: "snd (parseCondChildren_loop rest m) = m + int (length (concat (map leaves rest)))" for m
    using "5.IH"(2) [OF refl prod.collapse prod.collapse refl, where xc = "Some m"] by simp
  show ?case using "5.IH"(1) by (simp add: Let_def split_beta rest)
qed

section \<open>Values and placeholders of a tree\<close>

lemma parseRegularCond_value: "snd (fst (parseRegularCond t name v n)) = leaf_value (t, name, v)"
  by (cases t) (simp_all add: leaf_value_def Let_def)

lemma loop_Cons:
  "parseCondChildren_loop (child # rest) n =
     ((fst (fst (parseCond child (Some n)))
         # fst (fst (parseCondChildren_loop rest (n + int (length (leaves child))))),
       snd (fst (parseCond child (Some n)))
         @ snd (fst (parseCondChildren_loop rest (n + int (length (leaves child)))))),
      snd (parseCondChildren_loop rest (n + int (length (leaves child)))))"
proof -
  have "snd (parseCond child (Some n)) = Some (n + int (length (leaves child)))"
    by (cases child) (simp_all add: counter_advance(1) del: parseCond.simps)
  then show ?thesis by (simp add: Let_def split_beta)
qed

lemma parseCond_comb:
  "t = CondTypeAnd \<or> t = CondTypeOr \<Longrightarrow>
   fst (parseCond (Cond t name v children) n) =
     (let r = fst (parseCondChildren children (if t = CondTypeOr then '' OR '' else '' AND '')
                (case n of None \<Rightarrow> newN | Some k \<Rightarrow> k))
      in (if snd r = [] then [] else fst r, snd r))"
  by (auto simp add: Let_def split_beta)

lemma parseCond_leaf:
  "t \<noteq> CondTypeAnd \<Longrightarrow> t \<noteq> CondTypeOr \<Longrightarrow>
   fst (parseCond (Cond t name v children) n) =
     (fst (fst (parseRegularCond t name v (case n of None \<Rightarrow> newN | Some k \<Rightarrow> k))),
      [leaf_value (t, name, v)])"
  by (simp add: Let_def split_beta parseRegularCond_value del: parseRegularCond.simps)

lemma parseCondChildren_eq:
  "fst (parseCondChildren cs sep n) =
     (''('' @ Join (fst (fst (parseCondChildren_loop cs n))) sep @ '')'',
      snd (fst (parseCondChildren_loop cs n)))"
  by (simp add: Let_def split_beta)

lemma loop_values:
  "(\<And>c n. c \<in> set cs \<Longrightarrow> snd (fst (parseCond c n)) = map leaf_value (leaves c)) \<Longrightarrow>
   snd (fst (parseCondChildren_loop cs k)) = map leaf_value (concat (map leaves cs))"
  by (induction cs arbitrary: k) (simp_all add: loop_Cons del: parseCondChildren_loop.simps(2))

lemma parseCond_values: "snd (fst (parseCond c n)) = map leaf_value (leaves c)"
proof (induction c arbitrary: n)
  case CondNil
  then show ?case by simp
next
  case (Cond t name v children)
  show ?case
  proof (cases "t = CondTypeAnd \<or> t = CondTypeOr")
    case True
    then show ?thesis
      using loop_values [of children, OF Cond.IH]
      by (simp add: parseCond_comb parseCondChildren_eq Let_def del: parseCond.simps parseCondChildren.simps)
  next
    case False
    then show ?thesis by (simp add: parseCond_leaf del: parseCond.simps)
  qed
qed

lemma takeWhile_hd: "xs \<noteq> [] \<Longrightarrow> \<not> P (hd xs) \<Longrightarrow> takeWhile P (xs @ ys) = []"
  by (cases xs) auto

lemma placeholders_Join:
  "sep \<noteq> [] \<Longrightarrow> \<not> is_digit (hd sep) \<Longrightarrow> CHR ''$'' \<notin> set sep \<Longrightarrow>
   placeholders (Join cl sep) = concat (map placeholders cl)"
proof (induction cl sep rule: Join.induct)
  case (1 sep)
  then show ?case by simp
next
  case (2 x sep)
  then show ?case by simp
next
  case (3 x y ys sep)
  have "placeholders (x @ sep @ Join (y # ys) sep)
      = placeholders x @ placeholders (sep @ Join (y # ys) sep)"
    using 3(2,3) by (intro placeholders_append takeWhile_hd)
  also have "placeholders (sep @ Join (y # ys) sep) = placeholders (Join (y # ys) sep)"
    using 3(4) by (rule placeholders_no_dollar)
  finally show ?case using 3 by simp
qed

lemma placeholders_close: "placeholders (s @ '')'') = placeholders s"
proof -
  have "placeholders (s @ '')'') = placeholders s @ placeholders '')''"
    by (rule placeholders_append) (simp add: is_digit_def)
  then show ?thesis by simp
qed

lemma upto_append_len:
  "0 \<le> a \<Longrightarrow> 0 \<le> b \<Longrightarrow> [k..k + a - 1] @ [k + a..k + a + b - 1] = [k..k + a + b - 1]"
proof (cases "a = 0")
  case True
  then show ?thesis by simp
next
  case False
  assume "0 \<le> a" "0 \<le> b"
  with False have "k \<le> k + a - 1" "k + a - 1 \<le> k + a + b - 1" by auto
  from upto_split2 [OF this] show ?thesis by simp
qed


lemma parseRegularCond_placeholders:
  assumes "supported t" and "CHR ''$'' \<notin> set name" and "0 \<le> k"
  shows "placeholders (fst (fst (parseRegularCond t name v k))) = [k]"
proof -
  have "placeholders (name @ op @ CHR ''$'' # Itoa k) = [k]" if "CHR ''$'' \<notin> set op" for op
  proof -
    have "placeholders (name @ op @ CHR ''$'' # Itoa k) = placeholders (op @ CHR ''$'' # Itoa k)"
      using assms(2) by (rule placeholders_no_dollar)
    also have "\<dots> = placeholders (CHR ''$'' # Itoa k)"
      using that by (rule placeholders_no_dollar)
    finally show ?thesis using assms(3) by (simp only: placeholders_dollar_Itoa)
  qed
  from this [of "'' = ''"] this [of "'' <> ''"] this [of "'' < ''"] this [of "'' <= ''"]
    this [of "'' > ''"] this [of "'' >= ''"] assms(1)
  show ?thesis by (cases t) (simp_all add: Let_def)
qed

lemma loop_placeholders:
  assumes "\<And>c k. c \<in> set cs \<Longrightarrow> 0 \<le> k \<Longrightarrow>
             placeholders (fst (fst (parseCond c (Some k)))) = [k..k + int (length (leaves c)) - 1]"
    and "0 \<le> k"
  shows "concat (map placeholders (fst (fst (parseCondChildren_loop cs k))))
       = [k..k + int (length (concat (map leaves cs))) - 1]"
  using assms
proof (induction cs arbitrary: k)
  case Nil
  then show ?case by simp
next
  case (Cons c cs)
  have "concat (map placeholders (fst (fst (parseCondChildren_loop cs (k + int (length (leaves c)))))))
      = [k + int (length (leaves c))..k + int (length (leaves c)) + int (length (concat (map leaves cs))) - 1]"
    using Cons.prems by (intro Cons.IH) auto
  moreover have "placeholders (fst (fst (parseCond c (Some k)))) = [k..k + int (length (leaves c)) - 1]"
    using Cons.prems by auto
  ultimately show ?case
    using upto_append_len [of "int (length (leaves c))" "int (length (concat (map leaves cs)))" k]
    by (simp add: loop_Cons add.assoc del: parseCondChildren_loop.simps(2) parseCond.simps)
qed

lemma parseCond_placeholders:
  assumes "list_all plain_leaf (leaves c)"
    and "0 \<le> (case n of None \<Rightarrow> newN | Some k \<Rightarrow> k)"
  shows "placeholders (fst (fst (parseCond c n)))
       = [(case n of None \<Rightarrow> newN | Some k \<Rightarrow> k)..
          (case n of None \<Rightarrow> newN | Some k \<Rightarrow> k) + int (length (leaves c)) - 1]"
  using assms
proof (induction c arbitrary: n)
  case CondNil
  then show ?case by simp
next
  case (Cond t name v children)
  let ?k = "case n of None \<Rightarrow> newN | Some k \<Rightarrow> k"
  show ?case
  proof (cases "t = CondTypeAnd \<or> t = CondTypeOr")
    case True
    let ?sep = "if t = CondTypeOr then '' OR '' else '' AND ''"
    have kids: "placeholders (fst (fst (parseCond c (Some k)))) = [k..k + int (length (leaves c)) - 1]"
      if "c \<in> set children" "0 \<le> k" for c k
      using Cond.IH [OF that(1), of "Some k"] Cond.prems(1) that True
      by (simp add: list_all_iff)
    have L: "concat (map placeholders (fst (fst (parseCondChildren_loop children ?k))))
       = [?k..?k + int (length (concat (map leaves children))) - 1]"
      using kids Cond.prems(2) by (rule loop_placeholders)
    have J: "placeholders (Join cl '' AND '') = concat (map placeholders cl)"
      "placeholders (Join cl '' OR '') = concat (map placeholders cl)" for cl
      by (rule placeholders_Join; simp add: is_digit_def)+
    have V: "snd (fst (parseCondChildren_loop children ?k)) = map leaf_value (concat (map leaves children))"
      by (rule loop_values) (rule parseCond_values)
    show ?thesis
      using True L V
      by (simp add: parseCond_comb parseCondChildren_eq Let_def placeholders_close J
               del: parseCond.simps parseCondChildren.simps)
  next
    case False
    with Cond.prems show ?thesis
      by (simp add: parseCond_leaf parseRegularCond_placeholders plain_leaf_def
               del: parseCond.simps parseRegularCond.simps)
  qed
qed

subsection \<open>The layout of the fragment\<close>

lemma numbered_from_append:
  "numbered_from i (xs @ ys) = numbered_from i xs @ numbered_from (i + int (length xs)) ys"
  by (induction xs arbitrary: i) (simp_all add: add.assoc)

lemma length_numbered_from [simp]: "length (numbered_from i xs) = length xs"
  by (induction xs arbitrary: i) simp_all

lemma numbered_from_Nil_iff [simp]: "numbered_from i xs = [] \<longleftrightarrow> xs = []"
  by (cases xs) simp_all

lemma numbered_from_nth:
  "k < length xs \<Longrightarrow> numbered_from i xs ! k = leaf_text (i + int k) (xs ! k)"
proof (induction xs arbitrary: i k)
  case Nil
  then show ?case by simp
next
  case (Cons x xs)
  show ?case
  proof (cases k)
    case 0
    then show ?thesis by simp
  next
    case (Suc j)
    with Cons.prems have "j < length xs" by simp
    have "i + 1 + int j = i + int (Suc j)" by simp
    with Cons.IH [OF \<open>j < length xs\<close>, of "i + 1"] Suc show ?thesis by simp
  qed
qed

lemma parseRegularCond_text:
  "fst (fst (parseRegularCond t name v n)) = leaf_text n (t, name, v)"
  by (cases t) (simp_all add: leaf_text_def Let_def)

lemma loop_place:
  assumes "\<And>c p. c \<in> set cs \<Longrightarrow>
             fst (fst (parseCond c (Some p))) = place c (numbered_from p (leaves c))"
  shows "fst (fst (parseCondChildren_loop cs p))
       = place_children cs (numbered_from p (concat (map leaves cs)))"
  using assms
proof (induction cs arbitrary: p)
  case Nil
  then show ?case by simp
next
  case (Cons c cs)
  have rest: "fst (fst (parseCondChildren_loop cs (p + int (length (leaves c)))))
      = place_children cs (numbered_from (p + int (length (leaves c))) (concat (map leaves cs)))"
    using Cons.prems by (intro Cons.IH) auto
  have head: "fst (fst (parseCond c (Some p))) = place c (numbered_from p (leaves c))"
    using Cons.prems by auto
  show ?case
    by (simp add: loop_Cons rest head numbered_from_append
             del: parseCondChildren_loop.simps(2) parseCond.simps place.simps)
qed

lemma parseCond_place:
  "fst (fst (parseCond c n))
     = place c (numbered_from (case n of None \<Rightarrow> newN | Some k \<Rightarrow> k) (leaves c))"
proof (induction c arbitrary: n)
  case CondNil
  then show ?case by simp
next
  case (Cond t name v children)
  let ?k = "case n of None \<Rightarrow> newN | Some k \<Rightarrow> k"
  show ?case
  proof (cases "t = CondTypeAnd \<or> t = CondTypeOr")
    case True
    have kids: "fst (fst (parseCond c (Some p))) = place c (numbered_from p (leaves c))"
      if "c \<in> set children" for c p
      using Cond.IH [OF that, of "Some p"] by simp
    have L: "fst (fst (parseCondChildren_loop children ?k))
        = place_children children (numbered_from ?k (concat (map leaves children)))"
      using kids by (rule loop_place)
    have V: "snd (fst (parseCondChildren_loop children ?k)) = map leaf_value (concat (map leaves children))"
      by (rule loop_values) (rule parseCond_values)
    show ?thesis
      using True
      by (auto simp add: parseCond_comb parseCondChildren_eq Let_def L V
               simp del: parseCond.simps parseCondChildren.simps)
  next
    case False
    then show ?thesis
      by (simp add: parseCond_leaf parseRegularCond_text del: parseCond.simps parseRegularCond.simps)
  qed
qed

lemma counter_after:
  "snd (parseCond c (Some n)) = Some (n + int (length (leaves c)))"
  by (cases c) (simp_all add: counter_advance(1) del: parseCond.simps)

lemma loop_append:
  "parseCondChildren_loop (pre @ post) n =
     ((fst (fst (parseCondChildren_loop pre n))
         @ fst (fst (parseCondChildren_loop post (n + int (length (concat (map leaves pre)))))),
       snd (fst (parseCondChildren_loop pre n))
         @ snd (fst (parseCondChildren_loop post (n + int (length (concat (map leaves pre))))))),
      snd (parseCondChildren_loop post (n + int (length (concat (map leaves pre))))))"
proof (induction pre arbitrary: n)
  case Nil
  then show ?case by simp
next
  case (Cons c pre)
  have "(c # pre) @ post = c # (pre @ post)" by simp
  then show ?case
    by (simp only: loop_Cons Cons.IH)
       (simp add: add.assoc del: parseCond.simps parseCondChildren_loop.simps)
qed

text \<open>
  C1. For a condition tree whose comparisons are all of supported kinds, compiling with no
  counter given (the counter then starts at 1, and the result is that for a counter
  holding 1) returns the values of the comparisons in left-to-right, depth-first order, as
  many as there are comparisons. The fragment is the layout of the tree with the text
  "name symbol $i" at its i-th comparison, so the i-th value of the list is the one of the
  comparison whose text holds \<open>$i\<close>. When no property name contains a dollar sign, the
  placeholders read off the fragment from left to right are $1, $2, ... up to the number
  of comparisons.
\<close>

theorem parseCond_values_in_leaf_order:
  assumes "list_all (\<lambda>(t, name, v). supported t) (leaves T)"
  shows "snd (fst (parseCond T None)) = map (\<lambda>(t, name, v). v) (leaves T)
       \<and> length (snd (fst (parseCond T None))) = length (leaves T)
       \<and> fst (fst (parseCond T None)) = place T (numbered_from 1 (leaves T))
       \<and> (\<forall>i < length (leaves T).
             numbered_from 1 (leaves T) ! i
               = fst (snd (leaves T ! i)) @ '' '' @ symbol (fst (leaves T ! i))
                   @ '' $'' @ Itoa (int i + 1)
             \<and> snd (fst (parseCond T None)) ! i = snd (snd (leaves T ! i)))
       \<and> (list_all (\<lambda>(t, name, v). CHR ''$'' \<notin> set name) (leaves T) \<longrightarrow>
             placeholders (fst (fst (parseCond T None))) = [1..int (length (leaves T))])
       \<and> fst (parseCond T (Some 1)) = fst (parseCond T None)"
proof -
  have vals: "snd (fst (parseCond T None)) = map (\<lambda>(t, name, v). v) (leaves T)"
    using assms by (auto simp: parseCond_values list_all_iff leaf_value_def)
  have frag: "fst (fst (parseCond T None)) = place T (numbered_from 1 (leaves T))"
    using parseCond_place [of T None] by (simp add: newN_def)
  have nth: "numbered_from 1 (leaves T) ! i
               = fst (snd (leaves T ! i)) @ '' '' @ symbol (fst (leaves T ! i))
                   @ '' $'' @ Itoa (int i + 1)
             \<and> snd (fst (parseCond T None)) ! i = snd (snd (leaves T ! i))"
    if "i < length (leaves T)" for i
  proof -
    from that assms have "supported (fst (leaves T ! i))"
      by (auto simp: list_all_length split_beta)
    with that show ?thesis
      by (simp add: numbered_from_nth leaf_text_def vals split_beta add.commute)
  qed
  have scan: "placeholders (fst (fst (parseCond T None))) = [1..int (length (leaves T))]"
    if "list_all (\<lambda>(t, name, v). CHR ''$'' \<notin> set name) (leaves T)"
  proof -
    from that assms have "list_all plain_leaf (leaves T)"
      by (auto simp: list_all_iff plain_leaf_def)
    from parseCond_placeholders [OF this, of None] show ?thesis by (simp add: newN_def)
  qed
  have one: "fst (parseCond T (Some 1)) = fst (parseCond T None)"
    by (cases T) (simp_all add: newN_def)
  from vals frag nth scan one show ?thesis by simp
qed

theorem parseCond_values_in_leaf_order_witness:
  "parseCond (Cond CondTypeAnd [] GoNil
       [Cond CondTypeEq ''age'' (GoInt 30) [],
        Cond CondTypeOr [] GoNil
          [Cond CondTypeNeq ''city'' (GoString ''NY'') [],
           Cond CondTypeGt ''id'' (GoInt 7) []]]) None
     = ((''(age = $1 AND (city <> $2 OR id > $3))'',
         [GoInt 30, GoString ''NY'', GoInt 7]), Some 4)
   \<and> numbered_from 1 (leaves (Cond CondTypeAnd [] GoNil
       [Cond CondTypeEq ''age'' (GoInt 30) [],
        Cond CondTypeOr [] GoNil
          [Cond CondTypeNeq ''city'' (GoString ''NY'') [],
           Cond CondTypeGt ''id'' (GoInt 7) []]]))
     = [''age = $1'', ''city <> $2'', ''id > $3'']
   \<and> place (Cond CondTypeAnd [] GoNil
       [Cond CondTypeEq ''age'' (GoInt 30) [],
        Cond CondTypeOr [] GoNil
          [Cond CondTypeNeq ''city'' (GoString ''NY'') [],
           Cond CondTypeGt ''id'' (GoInt 7) []]])
       [''age = $1'', ''city <> $2'', ''id > $3'']
     = ''(age = $1 AND (city <> $2 OR id > $3))''
   \<and> placeholders ''(age = $1 AND (city <> $2 OR id > $3))'' = [1, 2, 3]"
proof -
  let ?T = "Cond CondTypeAnd [] GoNil
       [Cond CondTypeEq ''age'' (GoInt 30) [],
        Cond CondTypeOr [] GoNil
          [Cond CondTypeNeq ''city'' (GoString ''NY'') [],
           Cond CondTypeGt ''id'' (GoInt 7) []]]"
  have h: "list_all (\<lambda>(t, name, v). supported t) (leaves ?T)" by simp
  have e: "parseCond ?T None = ((''(age = $1 AND (city <> $2 OR id > $3))'',
         [GoInt 30, GoString ''NY'', GoInt 7]), Some 4)"
    by (simp add: newN_def)
  have n: "numbered_from 1 (leaves ?T) = [''age = $1'', ''city <> $2'', ''id > $3'']"
    by (simp add: leaf_text_def)
  have u: "[1..3] = [1, 2, 3 :: int]" by (simp add: upto.simps [of 1])
  note t = parseCond_values_in_leaf_order [OF h]
  have h2: "list_all (\<lambda>(t, name, v). CHR ''$'' \<notin> set name) (leaves ?T)" by simp
  have p: "place ?T (numbered_from 1 (leaves ?T)) = ''(age = $1 AND (city <> $2 OR id > $3))''"
    using t [THEN conjunct2, THEN conjunct2, THEN conjunct1] unfolding e by simp
  have "placeholders (fst (fst (parseCond ?T None))) = [1..int (length (leaves ?T))]"
    using t [THEN conjunct2, THEN conjunct2, THEN conjunct2, THEN conjunct2, THEN conjunct1] h2
    by (rule mp)
  then have s: "placeholders ''(age = $1 AND (city <> $2 OR id > $3))'' = [1, 2, 3]"
    unfolding e by (simp add: u del: placeholders.simps)
  have p': "place ?T [''age = $1'', ''city <> $2'', ''id > $3'']
      = ''(age = $1 AND (city <> $2 OR id > $3))''"
    using p unfolding n .
  show ?thesis
    using e n p' s by (simp only: simp_thms)
qed

section \<open>Leaf comparisons\<close>

text \<open>
  C8. A comparison of one of the six supported kinds compiles to the fragment
  "name symbol $position", where the position is the counter before the call and the
  symbols are =, <>, <, <=, >, >= for Eq, Neq, Lt, Lte, Gt, Gte; the value list is the
  comparison's own value alone, and the counter is one higher afterwards. Without a
  counter the result is that for the counter 1, so the position is 1.
\<close>

theorem parseCond_supported_leaf:
  "parseCond (Cond CondTypeEq name v ch) (Some n) = ((name @ '' = $'' @ Itoa n, [v]), Some (n + 1))
   \<and> parseCond (Cond CondTypeNeq name v ch) (Some n) = ((name @ '' <> $'' @ Itoa n, [v]), Some (n + 1))
   \<and> parseCond (Cond CondTypeLt name v ch) (Some n) = ((name @ '' < $'' @ Itoa n, [v]), Some (n + 1))
   \<and> parseCond (Cond CondTypeLte name v ch) (Some n) = ((name @ '' <= $'' @ Itoa n, [v]), Some (n + 1))
   \<and> parseCond (Cond CondTypeGt name v ch) (Some n) = ((name @ '' > $'' @ Itoa n, [v]), Some (n + 1))
   \<and> parseCond (Cond CondTypeGte name v ch) (Some n) = ((name @ '' >= $'' @ Itoa n, [v]), Some (n + 1))
   \<and> parseCond (Cond CondTypeEq name v ch) None = ((name @ '' = $1'', [v]), Some 2)
   \<and> fst (parseCond (Cond t name v ch) None) = fst (parseCond (Cond t name v ch) (Some 1))"
  by (simp add: newN_def)

text \<open>
  C9. A comparison of any other kind compiles to the empty fragment and the one-element
  value list holding nil, whatever its property and value are. The result of
  \<open>parseCond\<close> has no error component: nothing tells the caller.
\<close>

theorem parseCond_unsupported_leaf:
  "parseCond (Cond (CondTypeOther k) name v ch) (Some n) = (('''', [GoNil]), Some (n + 1))
   \<and> parseCond (Cond (CondTypeOther k) name v ch) None = (('''', [GoNil]), Some 2)"
  by (simp add: newN_def)

section \<open>Unsupported kinds and empty fragments\<close>

text \<open>
  C10. Compiling a comparison of any kind, supported or not, leaves the counter one
  higher, and compiling any condition leaves it higher by the number of comparisons in the
  condition, of whatever kind: a combinator hands back the counter its children
  advanced. The loop over children compiles each child from the counter the children
  before it left, so a condition is compiled from the start plus the number of comparisons
  before it in the pass, and the fragment is the layout of the tree with every comparison
  numbered so, unsupported ones included. A comparison of an unsupported kind has the
  empty text and binds nil, and the comparisons after it, in its own group or outside,
  have numbers one higher than without it. Without a counter the result is that for the
  counter 1.
\<close>

theorem leaf_advances_counter:
  "(t \<noteq> CondTypeAnd \<and> t \<noteq> CondTypeOr \<longrightarrow>
      snd (parseCond (Cond t name v ch) (Some n)) = Some (n + 1))
   \<and> parseCondChildren_loop (Cond (CondTypeOther k) name v ch # rest) n =
       (([] # fst (fst (parseCondChildren_loop rest (n + 1))),
         GoNil # snd (fst (parseCondChildren_loop rest (n + 1)))),
        snd (parseCondChildren_loop rest (n + 1)))
   \<and> fst (fst (parseCondChildren_loop
         [Cond (CondTypeOther k) name v ch, Cond CondTypeEq name' v' ch'] n))
       = [[], name' @ '' = $'' @ Itoa (n + 1)]
   \<and> fst (fst (parseCondChildren_loop [Cond CondTypeEq name' v' ch'] n))
       = [name' @ '' = $'' @ Itoa n]
   \<and> snd (parseCond c (Some n)) = Some (n + int (length (leaves c)))
   \<and> parseCondChildren_loop (pre @ post) n =
       ((fst (fst (parseCondChildren_loop pre n))
           @ fst (fst (parseCondChildren_loop post (n + int (length (concat (map leaves pre)))))),
         snd (fst (parseCondChildren_loop pre n))
           @ snd (fst (parseCondChildren_loop post (n + int (length (concat (map leaves pre))))))),
        snd (parseCondChildren_loop post (n + int (length (concat (map leaves pre))))))
   \<and> fst (fst (parseCond c (Some n))) = place c (numbered_from n (leaves c))
   \<and> snd (fst (parseCond c (Some n))) = map leaf_value (leaves c)
   \<and> numbered_from n (ls @ (CondTypeOther k, name, v) # ls')
       = numbered_from n ls @ [] # numbered_from (n + int (length ls) + 1) ls'
   \<and> numbered_from n (ls @ ls') = numbered_from n ls @ numbered_from (n + int (length ls)) ls'
   \<and> fst (parseCond c None) = fst (parseCond c (Some 1))"
proof -
  have 10: "fst (parseCond c None) = fst (parseCond c (Some 1))"
    by (cases c) (simp_all add: newN_def)
  have 1: "t \<noteq> CondTypeAnd \<and> t \<noteq> CondTypeOr \<longrightarrow>
      snd (parseCond (Cond t name v ch) (Some n)) = Some (n + 1)"
    by (simp add: counter_advance(1) del: parseCond.simps)
  have 2: "parseCondChildren_loop (Cond (CondTypeOther k) name v ch # rest) n =
       (([] # fst (fst (parseCondChildren_loop rest (n + 1))),
         GoNil # snd (fst (parseCondChildren_loop rest (n + 1)))),
        snd (parseCondChildren_loop rest (n + 1)))"
    by (simp add: split_beta Let_def)
  have 3: "fst (fst (parseCondChildren_loop
         [Cond (CondTypeOther k) name v ch, Cond CondTypeEq name' v' ch'] n))
       = [[], name' @ '' = $'' @ Itoa (n + 1)]"
    by simp
  have 4: "fst (fst (parseCondChildren_loop [Cond CondTypeEq name' v' ch'] n))
       = [name' @ '' = $'' @ Itoa n]"
    by simp
  have 7: "fst (fst (parseCond c (Some n))) = place c (numbered_from n (leaves c))"
    using parseCond_place [of c "Some n"] by simp
  have 9: "numbered_from n (ls @ (CondTypeOther k, name, v) # ls')
       = numbered_from n ls @ [] # numbered_from (n + int (length ls) + 1) ls'"
    by (simp add: numbered_from_append leaf_text_def)
  show ?thesis
    by (intro conjI)
       (rule 1 2 3 4 counter_after loop_append 7 parseCond_values 9 numbered_from_append 10)+
qed

theorem leaf_advances_counter_witness:
  "snd (parseCond (Cond (CondTypeOther 7) ''a'' (GoInt 1) []) (Some 1)) = Some 2
   \<and> parseCond (Cond CondTypeAnd [] GoNil
        [Cond (CondTypeOther 7) ''a'' (GoInt 1) [], Cond CondTypeEq ''b'' (GoInt 2) []]) None
     = ((''( AND b = $2)'', [GoNil, GoInt 2]), Some 3)
   \<and> parseCond (Cond CondTypeAnd [] GoNil
        [Cond CondTypeOr [] GoNil [Cond (CondTypeOther 7) ''a'' (GoInt 1) []],
         Cond CondTypeEq ''b'' (GoInt 2) []]) (Some 1)
     = ((''(() AND b = $2)'', [GoNil, GoInt 2]), Some 3)
   \<and> parseCond (Cond CondTypeAnd [] GoNil
        [Cond CondTypeOr [] GoNil [], Cond CondTypeEq ''b'' (GoInt 2) []]) (Some 1)
     = ((''( AND b = $1)'', [GoInt 2]), Some 2)"
proof -
  let ?u = "Cond (CondTypeOther 7) ''a'' (GoInt 1) []"
  let ?T = "Cond CondTypeAnd [] GoNil
        [Cond CondTypeOr [] GoNil [?u], Cond CondTypeEq ''b'' (GoInt 2) []]"
  have e: "parseCond (Cond CondTypeAnd [] GoNil [?u, Cond CondTypeEq ''b'' (GoInt 2) []]) None
     = ((''( AND b = $2)'', [GoNil, GoInt 2]), Some 3)"
    by (simp add: newN_def)
  have e': "parseCond (Cond CondTypeAnd [] GoNil
        [Cond CondTypeOr [] GoNil [], Cond CondTypeEq ''b'' (GoInt 2) []]) (Some 1)
     = ((''( AND b = $1)'', [GoInt 2]), Some 2)"
    by simp
  note t = leaf_advances_counter [of "CondTypeOther 7" "''a''" "GoInt 1" "[]" 1 7 "[]" "''b''"
      "GoInt 2" "[]" ?T "[]" "[]" "[]" "[]"]
  have a: "snd (parseCond ?u (Some 1)) = Some 2"
    using t [THEN conjunct1] by simp
  have c: "snd (parseCond ?T (Some 1)) = Some 3"
    using t [THEN conjunct2, THEN conjunct2, THEN conjunct2, THEN conjunct2, THEN conjunct1]
    by simp
  have f: "fst (fst (parseCond ?T (Some 1))) = ''(() AND b = $2)''"
    using t [THEN conjunct2, THEN conjunct2, THEN conjunct2, THEN conjunct2, THEN conjunct2,
        THEN conjunct2, THEN conjunct1]
    by (simp add: leaf_text_def del: parseCond.simps)
  have v: "snd (fst (parseCond ?T (Some 1))) = [GoNil, GoInt 2]"
    using t [THEN conjunct2, THEN conjunct2, THEN conjunct2, THEN conjunct2, THEN conjunct2,
        THEN conjunct2, THEN conjunct2, THEN conjunct1]
    by (simp add: leaf_value_def del: parseCond.simps)
  have "parseCond ?T (Some 1) = ((''(() AND b = $2)'', [GoNil, GoInt 2]), Some 3)"
    using c f v by (simp only: prod_eq_iff fst_conv snd_conv simp_thms)
  with a e e' show ?thesis by (simp only: simp_thms)
qed

text \<open>
  C3. The children's fragments are all joined, the empty ones too: for the conjunction
  of a comparison and an empty conjunction (or a nil condition) the compiler returns
  "(a = $1 AND )", where the claim has "(a = $1)".
\<close>

theorem parseCondChildren_joins_empty_fragments:
  "parseCond (Cond CondTypeAnd [] GoNil
      [Cond CondTypeEq ''a'' (GoInt 1) [], Cond CondTypeAnd [] GoNil []]) None
     = ((''(a = $1 AND )'', [GoInt 1]), Some 2)
   \<and> parseCond (Cond CondTypeAnd [] GoNil [Cond CondTypeEq ''a'' (GoInt 1) [], CondNil]) None
     = ((''(a = $1 AND )'', [GoInt 1]), Some 2)
   \<and> parseCond (Cond CondTypeOr [] GoNil
      [CondNil, Cond CondTypeEq ''a'' (GoInt 1) [], Cond CondTypeEq ''b'' (GoInt 2) []]) None
     = ((''( OR a = $1 OR b = $2)'', [GoInt 1, GoInt 2]), Some 3)"
  by (simp add: newN_def)

text \<open>
  C4. The claim fails for a combinator whose only child is a comparison of an unsupported
  kind: the child compiles to the empty fragment, the combinator to "()", and the
  statement gets WHERE ().
\<close>

theorem empty_fragment_children_counterexample:
  "fst (fst (parseCond (Cond (CondTypeOther 0) ''x'' (GoInt 1) []) (Some 1))) = []
   \<and> parseCond (Cond CondTypeAnd [] GoNil [Cond (CondTypeOther 0) ''x'' (GoInt 1) []]) None
     = ((''()'', [GoNil]), Some 2)
   \<and> buildWhere (Cond CondTypeAnd [] GoNil [Cond (CondTypeOther 0) ''x'' (GoInt 1) []])
        ''DELETE FROM %s'' None [ArgString ''t'']
     = (''DELETE FROM t WHERE ()'', [GoNil])"
  by (simp add: newN_def buildWhere_def)

text \<open>
  C4, amended. A combinator with no children, or whose children all compile to the empty
  fragment with no values, compiles to the empty fragment with no values, and
  \<open>buildWhere\<close> leaves the statement without WHERE; so it does for a nil condition.
  For every condition, \<open>buildWhere\<close> appends WHERE and the fragment exactly when the
  fragment is not empty.
\<close>

theorem empty_combinator_compiles_empty:
  assumes "t = CondTypeAnd \<or> t = CondTypeOr"
    and "\<forall>c \<in> set children. \<forall>k. fst (parseCond c (Some k)) = ([], [])"
  shows "fst (parseCond (Cond t name v children) n) = ([], [])
       \<and> buildWhere (Cond t name v children) query n args = (Sprintf query args, [])
       \<and> parseCond CondNil n = (([], []), n)
       \<and> buildWhere CondNil query n args = (Sprintf query args, [])
       \<and> buildWhere c query n args =
           (if fst (fst (parseCond c n)) \<noteq> []
            then Sprintf (query @ '' WHERE %s'') (args @ [ArgString (fst (fst (parseCond c n)))])
            else Sprintf query args,
            snd (fst (parseCond c n)))"
proof -
  have loop: "snd (fst (parseCondChildren_loop cs k)) = []"
    if "\<forall>c \<in> set cs. \<forall>k. fst (parseCond c (Some k)) = ([], [])" for cs k
    using that
    by (induction cs arbitrary: k) (simp_all add: loop_Cons del: parseCondChildren_loop.simps(2))
  have 1: "fst (parseCond (Cond t name v children) n) = ([], [])"
    using assms(1) loop [OF assms(2)]
    by (simp add: parseCond_comb parseCondChildren_eq Let_def del: parseCond.simps parseCondChildren.simps)
  have 2: "buildWhere c query n args =
           (if fst (fst (parseCond c n)) \<noteq> []
            then Sprintf (query @ '' WHERE %s'') (args @ [ArgString (fst (fst (parseCond c n)))])
            else Sprintf query args,
            snd (fst (parseCond c n)))" for c
    by (simp add: buildWhere_def split_beta del: parseCond.simps)
  have 3: "buildWhere (Cond t name v children) query n args = (Sprintf query args, [])"
    unfolding 2 1 by simp
  have 4: "buildWhere CondNil query n args = (Sprintf query args, [])"
    unfolding 2 by simp
  from 1 2 3 4 show ?thesis by simp
qed

theorem empty_combinator_compiles_empty_witness:
  "parseCond (Cond CondTypeAnd [] GoNil [CondNil, Cond CondTypeOr [] GoNil []]) None
       = (([], []), Some 1)
   \<and> buildWhere (Cond CondTypeAnd [] GoNil [CondNil, Cond CondTypeOr [] GoNil []])
        ''DELETE FROM %s'' None [ArgString ''t'']
       = (''DELETE FROM t'', [])
   \<and> buildWhere (Cond CondTypeAnd [] GoNil []) ''DELETE FROM %s'' None [ArgString ''t'']
       = (''DELETE FROM t'', [])"
proof -
  have h: "\<forall>c \<in> set [CondNil, Cond CondTypeOr [] GoNil []]. \<forall>k. fst (parseCond c (Some k)) = ([], [])"
    by simp
  have e: "parseCond (Cond CondTypeAnd [] GoNil [CondNil, Cond CondTypeOr [] GoNil []]) None
       = (([], []), Some 1)"
    by (simp add: newN_def)
  show ?thesis
    using e
      empty_combinator_compiles_empty [OF _ h, of CondTypeAnd "[]" GoNil None "''DELETE FROM %s''"
        "[ArgString ''t'']" CondNil]
      empty_combinator_compiles_empty [of CondTypeAnd "[]" "[]" GoNil None "''DELETE FROM %s''"
        "[ArgString ''t'']" CondNil]
    by simp
qed

text \<open>
  C5. For a primary key of dynamic type \<^verbatim>\<open>int\<close> the emptiness test does not return:
  the branch for the signed integers asserts \<^verbatim>\<open>int64\<close>, and the assertion panics. It
  is so for every signed or unsigned integer type but \<^verbatim>\<open>int64\<close> and \<^verbatim>\<open>uint64\<close>
  and for \<^verbatim>\<open>float32\<close>, whatever the value.
\<close>

theorem isPkEmpty_panics:
  "isPkEmpty (GoInt 0) = Inl InterfaceConversion
   \<and> isPkEmpty (GoInt i) = Inl InterfaceConversion
   \<and> isPkEmpty (GoInt8 i8) = Inl InterfaceConversion
   \<and> isPkEmpty (GoInt16 i16) = Inl InterfaceConversion
   \<and> isPkEmpty (GoInt32 i32) = Inl InterfaceConversion
   \<and> isPkEmpty (GoUint u) = Inl InterfaceConversion
   \<and> isPkEmpty (GoUint8 u8) = Inl InterfaceConversion
   \<and> isPkEmpty (GoUint16 u16) = Inl InterfaceConversion
   \<and> isPkEmpty (GoUint32 u32) = Inl InterfaceConversion
   \<and> isPkEmpty (GoFloat32 f32) = Inl InterfaceConversion"
  by simp

lemma isPkEmpty_returns:
  "isPkEmpty (GoString s) = Inr (s = [])"
  "isPkEmpty (GoInt64 i) = Inr (i = 0)"
  "isPkEmpty (GoUint64 u) = Inr (u = 0)"
  "isPkEmpty (GoFloat64 f) = Inr (f = 0 \<or> f = 0x8000000000000000)"
  by (simp_all add: float64_eq_zero_def)

section \<open>Update\<close>

lemma buildUpdateProps_loop_eq:
  "buildUpdateProps_loop vs idx i =
     (map (\<lambda>(j, v). ValProp v @ '' = $'' @ Itoa (idx + int j + 1)) (enumerate 0 vs),
      map ValVal vs,
      if vs = [] then i else idx + int (length vs) - 1)"
proof (induction vs arbitrary: idx i)
  case Nil
  then show ?case by simp
next
  case (Cons v vs)
  have "map (\<lambda>(j, v). ValProp v @ '' = $'' @ Itoa (idx + int j + 1)) (enumerate (Suc 0) vs)
      = map (\<lambda>(j, v). ValProp v @ '' = $'' @ Itoa (idx + 1 + int j + 1)) (enumerate 0 vs)"
    by (simp add: enumerate_Suc_eq split_beta add.commute add.left_commute)
  then show ?case by (simp add: Cons.IH)
qed

lemma buildUpdateProps_eq:
  "buildUpdateProps vs =
     ((if vs = [] then 2 else int (length vs) + 1),
      Join (map (\<lambda>(j, v). ValProp v @ '' = $'' @ Itoa (int j + 1)) (enumerate 0 vs)) '', '',
      map ValVal vs)"
  by (simp add: buildUpdateProps_def buildUpdateProps_loop_eq)

lemma buildWhere_eq:
  "buildWhere c query n args =
     (if fst (fst (parseCond c n)) \<noteq> []
      then Sprintf (query @ '' WHERE %s'') (args @ [ArgString (fst (fst (parseCond c n)))])
      else Sprintf query args,
      snd (fst (parseCond c n)))"
  by (simp add: buildWhere_def split_beta del: parseCond.simps)

text \<open>
  With at least one assignment, \<^verbatim>\<open>Update\<close> hands the engine the SET values followed
  by the WHERE values, and the placeholders of the WHERE fragment continue after those of
  the SET clause.
\<close>

lemma Update_continues_placeholders:
  assumes "values \<noteq> []" and "list_all plain_leaf (leaves condition)"
  shows "fst (Update db st store condition values) =
           [(''UPDATE '' @ StoreName store @ '' SET ''
               @ Join (map (\<lambda>(j, v). ValProp v @ '' = $'' @ Itoa (int j + 1)) (enumerate 0 values)) '', ''
               @ (if fst (fst (parseCond condition (Some (int (length values) + 1)))) = [] then []
                  else '' WHERE '' @ fst (fst (parseCond condition (Some (int (length values) + 1))))),
             map ValVal values @ map (\<lambda>(t, name, v). v) (leaves condition))]"
    and "placeholders (fst (fst (parseCond condition (Some (int (length values) + 1)))))
           = [int (length values) + 1..int (length values) + int (length (leaves condition))]"
proof -
  have "map leaf_value (leaves condition) = map (\<lambda>(t, name, v). v) (leaves condition)"
    using assms(2) by (auto simp: list_all_iff plain_leaf_def leaf_value_def)
  then show "fst (Update db st store condition values) =
           [(''UPDATE '' @ StoreName store @ '' SET ''
               @ Join (map (\<lambda>(j, v). ValProp v @ '' = $'' @ Itoa (int j + 1)) (enumerate 0 values)) '', ''
               @ (if fst (fst (parseCond condition (Some (int (length values) + 1)))) = [] then []
                  else '' WHERE '' @ fst (fst (parseCond condition (Some (int (length values) + 1))))),
             map ValVal values @ map (\<lambda>(t, name, v). v) (leaves condition))]"
    using assms(1)
    by (simp add: Update_def buildUpdateProps_eq buildWhere_eq split_beta Let_def parseCond_values
             del: parseCond.simps)
  show "placeholders (fst (fst (parseCond condition (Some (int (length values) + 1)))))
           = [int (length values) + 1..int (length values) + int (length (leaves condition))]"
    using parseCond_placeholders [OF assms(2), of "Some (int (length values) + 1)"]
    by (simp add: add.commute add.left_commute)
qed

text \<open>
  C2. With no assignment the loop of \<^verbatim>\<open>buildUpdateProps\<close> never assigns \<^verbatim>\<open>i\<close>,
  the cursor is 0 + 2, and the only comparison of the condition is rendered with $2
  while one value is bound: the WHERE placeholders are numbered from j + 2, not j + 1.
\<close>

theorem Update_no_assignment_cursor:
  "buildUpdateProps [] = (2, [], [])
   \<and> fst (Update db st \<lparr>StoreName = ''t'', StoreProps = ps, StorePk = pk\<rparr>
            (Cond CondTypeEq ''id'' (GoInt 7) []) [])
     = [(''UPDATE t SET  WHERE id = $2'', [GoInt 7])]"
  by (simp add: buildUpdateProps_def Update_def buildWhere_def split_beta Let_def)

section \<open>Column lists\<close>

lemma buildQueryProperties_loop_eq:
  "c + length (filter (\<lambda>p. \<not> (isSerial \<and> IsPk p)) ps) \<le> length l \<Longrightarrow>
   buildQueryProperties_loop ps isSerial l c =
     Inr (take c l @ map Name (filter (\<lambda>p. \<not> (isSerial \<and> IsPk p)) ps)
          @ drop (c + length (filter (\<lambda>p. \<not> (isSerial \<and> IsPk p)) ps)) l)"
proof (induction ps arbitrary: l c)
  case Nil
  then show ?case by simp
next
  case (Cons p ps)
  show ?case
  proof (cases "isSerial \<and> IsPk p")
    case True
    then have skip: "filter (\<lambda>p. \<not> (isSerial \<and> IsPk p)) (p # ps)
        = filter (\<lambda>p. \<not> (isSerial \<and> IsPk p)) ps"
      by simp
    have step: "buildQueryProperties_loop (p # ps) isSerial l c
        = buildQueryProperties_loop ps isSerial l c"
      using True by simp
    from Cons.prems have "c + length (filter (\<lambda>p. \<not> (isSerial \<and> IsPk p)) ps) \<le> length l"
      unfolding skip .
    from Cons.IH [OF this] show ?thesis
      unfolding step skip .
  next
    case False
    with Cons.prems have c: "c < length l" by simp
    have upd: "take (Suc c) (l[c := Name p]) = take c l @ [Name p]"
      using c by (simp add: take_Suc_conv_app_nth)
    from False have keep: "filter (\<lambda>p. \<not> (isSerial \<and> IsPk p)) (p # ps)
        = p # filter (\<lambda>p. \<not> (isSerial \<and> IsPk p)) ps"
      by simp
    have step: "buildQueryProperties_loop (p # ps) isSerial l c
        = buildQueryProperties_loop ps isSerial (l[c := Name p]) (c + 1)"
      using False c by (cases isSerial) simp_all
    have "c + 1 + length (filter (\<lambda>p. \<not> (isSerial \<and> IsPk p)) ps) \<le> length (l[c := Name p])"
      using Cons.prems unfolding keep by simp
    from Cons.IH [OF this] show ?thesis
      unfolding step keep using c by (simp add: upd)
  qed
qed


lemma buildQueryProperties_all:
  "buildQueryProperties props False = Inr (Join (map Name props) '', '')"
proof -
  have "buildQueryProperties_loop props False (replicate (length props) []) 0
      = Inr (map Name props)"
    using buildQueryProperties_loop_eq [of 0 False props "replicate (length props) []"]
    by simp
  then show ?thesis by (simp add: buildQueryProperties_def)
qed

lemma buildQueryProperties_serial:
  assumes "length (filter IsPk props) = 1"
  shows "buildQueryProperties props True = Inr (Join (map Name (filter (\<lambda>p. \<not> IsPk p) props)) '', '')"
proof -
  have "length props = length (filter IsPk props) + length (filter (\<lambda>p. \<not> IsPk p) props)"
    by (rule sum_length_filter_compl [symmetric])
  with assms have n: "length props = Suc (length (filter (\<lambda>p. \<not> IsPk p) props))"
    by simp
  then have ln: "nat (int (length props) - 1) = length (filter (\<lambda>p. \<not> IsPk p) props)"
    and pos: "\<not> int (length props) - 1 < 0"
    by simp_all
  have "buildQueryProperties_loop props True
          (replicate (length (filter (\<lambda>p. \<not> IsPk p) props)) []) 0
      = Inr (map Name (filter (\<lambda>p. \<not> IsPk p) props))"
    using buildQueryProperties_loop_eq [of 0 True props
        "replicate (length (filter (\<lambda>p. \<not> IsPk p) props)) []"]
    by simp
  then show ?thesis
    using pos by (simp add: buildQueryProperties_def ln)
qed

section \<open>Find\<close>

text \<open>
  C7. \<^verbatim>\<open>Find\<close> hands the engine one statement. Its text is the SELECT with the
  compiled WHERE clause, followed by " LIMIT limit OFFSET offset" when the limit is
  positive and by nothing otherwise, whatever the offset is; its values are those of the
  condition.
\<close>

theorem Find_limit_offset:
  "fst (Find db st store condition limit offset) =
     [(fst (buildWhere condition ''SELECT %s FROM %s'' None
              [ArgString (Join (map Name (StoreProps store)) '', ''), ArgString (StoreName store)])
         @ (if limit > 0 then '' LIMIT '' @ Itoa limit @ '' OFFSET '' @ Itoa offset else []),
       snd (buildWhere condition ''SELECT %s FROM %s'' None
              [ArgString (Join (map Name (StoreProps store)) '', ''), ArgString (StoreName store)]))]"
proof -
  have fmt: "Sprintf '' LIMIT %d OFFSET %d'' [ArgInt limit, ArgInt offset]
      = '' LIMIT '' @ Itoa limit @ '' OFFSET '' @ Itoa offset"
    by simp
  show ?thesis
    unfolding Find_def buildQueryProperties_all fmt
    by (simp add: split_beta Let_def split: sum.splits)
qed

theorem Find_limit_offset_witness:
  "fst (Find (\<lambda>s q a. (Inr [], s)) ()
          \<lparr>StoreName = ''t'', StoreProps = [\<lparr>Name = ''id'', IsPk = True\<rparr>, \<lparr>Name = ''age'', IsPk = False\<rparr>],
           StorePk = \<lparr>Name = ''id'', IsPk = True\<rparr>\<rparr>
          (Cond CondTypeGt ''age'' (GoInt 30) []) 5 10)
     = [(''SELECT id, age FROM t WHERE age > $1 LIMIT 5 OFFSET 10'', [GoInt 30])]
   \<and> fst (Find (\<lambda>s q a. (Inr [], s)) ()
          \<lparr>StoreName = ''t'', StoreProps = [\<lparr>Name = ''id'', IsPk = True\<rparr>, \<lparr>Name = ''age'', IsPk = False\<rparr>],
           StorePk = \<lparr>Name = ''id'', IsPk = True\<rparr>\<rparr>
          CondNil 0 10)
     = [(''SELECT id, age FROM t'', [])]"
proof -
  let ?s = "\<lparr>StoreName = ''t'', StoreProps = [\<lparr>Name = ''id'', IsPk = True\<rparr>, \<lparr>Name = ''age'', IsPk = False\<rparr>],
           StorePk = \<lparr>Name = ''id'', IsPk = True\<rparr>\<rparr>"
  have b1: "buildWhere (Cond CondTypeGt ''age'' (GoInt 30) []) ''SELECT %s FROM %s'' None
          [ArgString ''id, age'', ArgString ''t'']
        = (''SELECT id, age FROM t WHERE age > $1'', [GoInt 30])"
    by (simp add: buildWhere_def newN_def)
  have b2: "buildWhere CondNil ''SELECT %s FROM %s'' None [ArgString ''id, age'', ArgString ''t'']
        = (''SELECT id, age FROM t'', [])"
    by (simp add: buildWhere_def)
  show ?thesis
    using
      Find_limit_offset [of "\<lambda>s q a. (Inr [], s)" "()" ?s "Cond CondTypeGt ''age'' (GoInt 30) []" 5 10]
      Find_limit_offset [of "\<lambda>s q a. (Inr [], s)" "()" ?s CondNil 0 10]
    by (simp add: b1 b2)
qed

section \<open>Put\<close>

lemma Put_values_eq:
  "i + length vs \<le> length props \<Longrightarrow>
   Put_values vs i props acc =
     Inr (acc @ map snd (filter (\<lambda>(p, v). \<not> IsPk p) (zip (drop i props) vs)))"
proof (induction vs arbitrary: i acc)
  case Nil
  then show ?case by simp
next
  case (Cons v vs)
  then have i: "i < length props" by simp
  then have d: "drop i props = props ! i # drop (Suc i) props"
    by (simp add: Cons_nth_drop_Suc)
  from Cons.prems have "Suc i + length vs \<le> length props" by simp
  note IH = Cons.IH [OF this]
  show ?case using i by (simp add: d IH)
qed

lemma length_filter_zip_fst:
  "length xs = length ys \<Longrightarrow>
   length (filter (\<lambda>(p, v). P p) (zip xs ys)) = length (filter P xs)"
  by (induction xs ys rule: list_induct2) simp_all

lemma Sprintf_insert:
  "Sprintf ''INSERT INTO %s (%s) VALUES (%s) RETURNING %s''
     [ArgString a, ArgString b, ArgString c, ArgString d]
   = ''INSERT INTO '' @ a @ '' ('' @ b @ '') VALUES ('' @ c @ '') RETURNING '' @ d"
  by simp


lemma Put_iter_eq:
  assumes "well_formed m" and "isPkEmpty (OrmPk m) = Inr serial"
  shows "Put_iter db st m =
     (let (query, values) = insert_statement m serial;
          (r, st') = db st query values in
      case RowErr r of
        Some e \<Rightarrow> ([(query, values)], st', m, Inr (Some e))
      | None \<Rightarrow>
          (case RowScan r of
             Inl e \<Rightarrow> ([(query, values)], st', m, Inr (Some e))
           | Inr k \<Rightarrow> ([(query, values)], st', m\<lparr>OrmPk := k\<rparr>, Inr None)))"
proof (cases serial)
  case True
  from assms(1) have len: "length (OrmVals m) = length (OrmProps m)"
    and one: "length (filter IsPk (OrmProps m)) = 1"
    by (simp_all add: well_formed_def)
  have "length (OrmProps m) = length (filter IsPk (OrmProps m)) + length (filter (\<lambda>p. \<not> IsPk p) (OrmProps m))"
    by (rule sum_length_filter_compl [symmetric])
  with one have n: "length (OrmProps m) = Suc (length (filter (\<lambda>p. \<not> IsPk p) (OrmProps m)))"
    by simp
  have vl: "int (length (OrmVals m)) - 1
      = int (length (map snd (filter (\<lambda>(p, v). \<not> IsPk p) (zip (OrmProps m) (OrmVals m)))))"
    using n len by (simp add: length_filter_zip_fst [OF len [symmetric]])
  have pv: "Put_values (OrmVals m) 0 (OrmProps m) []
      = Inr (map snd (filter (\<lambda>(p, v). \<not> IsPk p) (zip (OrmProps m) (OrmVals m))))"
    using Put_values_eq [of 0 "OrmVals m" "OrmProps m" "[]"] len by simp
  have ph: "buildInsertPlaceholders (int (length (OrmVals m)) - 1)
      = Inr (Join (map (\<lambda>i. ''$'' @ Itoa i)
          [1..int (length (map snd (filter (\<lambda>(p, v). \<not> IsPk p) (zip (OrmProps m) (OrmVals m)))))]) '', '')"
    unfolding vl by (simp add: buildInsertPlaceholders_def)
  have nonneg: "\<not> int (length (OrmVals m)) - 1 < 0"
    unfolding vl by simp
  from True assms(2) have e: "isPkEmpty (OrmPk m) = Inr True" and s: "serial = True"
    by simp_all
  show ?thesis
    using nonneg
    by (simp add: s Put_iter_def e insert_statement_def insert_text_def
          buildQueryProperties_serial [OF one] ph pv Let_def Sprintf_insert
        del: Sprintf.simps)
next
  case False
  have ph: "buildInsertPlaceholders (int (length (OrmVals m)))
      = Inr (Join (map (\<lambda>i. ''$'' @ Itoa i) [1..int (length (OrmVals m))]) '', '')"
    by (simp add: buildInsertPlaceholders_def)
  from False assms(2) have e: "isPkEmpty (OrmPk m) = Inr False" and s: "serial = False"
    by simp_all
  show ?thesis
    by (simp add: s Put_iter_def e insert_statement_def insert_text_def
          buildQueryProperties_all ph Let_def Sprintf_insert
        del: Sprintf.simps)
qed

lemma well_formed_pk_value:
  assumes "well_formed m"
  shows "OrmPk m \<in> set (OrmVals m)"
proof -
  from assms have len: "length (OrmVals m) = length (OrmProps m)"
    and one: "length (filter IsPk (OrmProps m)) = 1"
    and all: "list_all (\<lambda>(p, v). IsPk p \<longrightarrow> v = OrmPk m) (zip (OrmProps m) (OrmVals m))"
    by (simp_all add: well_formed_def)
  from one have "filter IsPk (OrmProps m) \<noteq> []" by auto
  then obtain p where "p \<in> set (OrmProps m)" "IsPk p"
    by (auto simp: filter_empty_conv)
  then obtain i where i: "i < length (OrmProps m)" "IsPk (OrmProps m ! i)"
    by (auto simp: in_set_conv_nth)
  with len have "(OrmProps m ! i, OrmVals m ! i) \<in> set (zip (OrmProps m) (OrmVals m))"
    by (auto simp: set_zip)
  with all i(2) have "OrmVals m ! i = OrmPk m"
    by (auto simp: list_all_iff)
  with i(1) len show ?thesis by (metis nth_mem)
qed

lemma Put_single:
  "Put db st [m] = (case Put_iter db st m of (q, st', m', r) \<Rightarrow> (q, st', [m'], r))"
  by (simp add: split_beta)

text \<open>
  Where the emptiness test returns. For a well-formed model, one iteration of \<^verbatim>\<open>Put\<close>
  hands the engine one INSERT statement. If the test answers true, the columns are the
  properties other than the primary key and the bound values are the values of these
  properties, in property order, one fewer than the model has. If it answers false, the
  columns are all the properties, the primary-key property among them, and the bound
  values are the model's values unchanged, the key among them. In both cases, when the
  engine returns a row without error and the scan succeeds, the scanned key is stored in
  the model's primary key.
\<close>

lemma Put_iter_insert:
  assumes "well_formed m" and "isPkEmpty (OrmPk m) = Inr serial"
  shows "(serial \<longrightarrow>
            fst (Put_iter db st m) =
              [(insert_text m (filter (\<lambda>p. \<not> IsPk p) (OrmProps m))
                  (map snd (filter (\<lambda>(p, v). \<not> IsPk p) (zip (OrmProps m) (OrmVals m)))),
                map snd (filter (\<lambda>(p, v). \<not> IsPk p) (zip (OrmProps m) (OrmVals m))))]
            \<and> OrmPkProp m \<notin> set (filter (\<lambda>p. \<not> IsPk p) (OrmProps m))
            \<and> length (map snd (filter (\<lambda>(p, v). \<not> IsPk p) (zip (OrmProps m) (OrmVals m))))
                = length (OrmVals m) - 1)
       \<and> (\<not> serial \<longrightarrow>
            fst (Put_iter db st m) = [(insert_text m (OrmProps m) (OrmVals m), OrmVals m)]
            \<and> OrmPkProp m \<in> set (OrmProps m)
            \<and> OrmPk m \<in> set (OrmVals m))
       \<and> (\<forall>query values r st' k.
            fst (Put_iter db st m) = [(query, values)]
            \<and> db st query values = (r, st') \<and> RowErr r = None \<and> RowScan r = Inr k
            \<longrightarrow> Put_iter db st m = ([(query, values)], st', m\<lparr>OrmPk := k\<rparr>, Inr None))"
proof -
  note eq = Put_iter_eq [OF assms, of db st]
  have stmt: "fst (Put_iter db st m) = [insert_statement m serial]"
    unfolding eq by (simp add: split_beta Let_def split: option.splits sum.splits)
  from assms(1) have len: "length (OrmVals m) = length (OrmProps m)"
    and one: "length (filter IsPk (OrmProps m)) = 1"
    and pkp: "OrmPkProp m \<in> set (OrmProps m)" "IsPk (OrmPkProp m)"
    by (simp_all add: well_formed_def)
  have "length (OrmProps m) = length (filter IsPk (OrmProps m)) + length (filter (\<lambda>p. \<not> IsPk p) (OrmProps m))"
    by (rule sum_length_filter_compl [symmetric])
  with one len have n: "length (filter (\<lambda>p. \<not> IsPk p) (OrmProps m)) = length (OrmVals m) - 1"
    by simp
  have a: "length (map snd (filter (\<lambda>(p, v). \<not> IsPk p) (zip (OrmProps m) (OrmVals m))))
                = length (OrmVals m) - 1"
    using n by (simp add: length_filter_zip_fst [OF len [symmetric]])
  have scan: "Put_iter db st m = ([(q, vs)], st', m\<lparr>OrmPk := k\<rparr>, Inr None)"
    if "fst (Put_iter db st m) = [(q, vs)]" "db st q vs = (r, st')"
      "RowErr r = None" "RowScan r = Inr k" for q vs r st' k
  proof -
    from that(1) stmt have "insert_statement m serial = (q, vs)" by simp
    with that(2-4) show ?thesis unfolding eq by simp
  qed
  show ?thesis
    using stmt a pkp well_formed_pk_value [OF assms(1)] scan
    by (auto simp: insert_statement_def)
qed

lemma Put_iter_insert_example:
  "isPkEmpty (GoInt64 0) = Inr True
   \<and> Put_iter (\<lambda>s q a. (\<lparr>RowErr = None, RowScan = Inr (GoInt64 5)\<rparr>, s)) ()
       \<lparr>OrmStore = ''t'', OrmProps = [\<lparr>Name = ''id'', IsPk = True\<rparr>, \<lparr>Name = ''name'', IsPk = False\<rparr>],
        OrmPkProp = \<lparr>Name = ''id'', IsPk = True\<rparr>, OrmVals = [GoInt64 0, GoString ''Bob''], OrmPk = GoInt64 0\<rparr>
     = ([(''INSERT INTO t (name) VALUES ($1) RETURNING id'', [GoString ''Bob''])], (),
        \<lparr>OrmStore = ''t'', OrmProps = [\<lparr>Name = ''id'', IsPk = True\<rparr>, \<lparr>Name = ''name'', IsPk = False\<rparr>],
         OrmPkProp = \<lparr>Name = ''id'', IsPk = True\<rparr>, OrmVals = [GoInt64 0, GoString ''Bob''], OrmPk = GoInt64 5\<rparr>,
        Inr None)
   \<and> isPkEmpty (GoInt64 9) = Inr False
   \<and> fst (Put_iter (\<lambda>s q a. (\<lparr>RowErr = None, RowScan = Inr (GoInt64 9)\<rparr>, s)) ()
       \<lparr>OrmStore = ''t'', OrmProps = [\<lparr>Name = ''id'', IsPk = True\<rparr>, \<lparr>Name = ''name'', IsPk = False\<rparr>],
        OrmPkProp = \<lparr>Name = ''id'', IsPk = True\<rparr>, OrmVals = [GoInt64 9, GoString ''Al''], OrmPk = GoInt64 9\<rparr>)
     = [(''INSERT INTO t (id, name) VALUES ($1, $2) RETURNING id'', [GoInt64 9, GoString ''Al''])]"
proof -
  let ?m = "\<lparr>OrmStore = ''t'', OrmProps = [\<lparr>Name = ''id'', IsPk = True\<rparr>, \<lparr>Name = ''name'', IsPk = False\<rparr>],
       OrmPkProp = \<lparr>Name = ''id'', IsPk = True\<rparr>, OrmVals = [GoInt64 0, GoString ''Bob''], OrmPk = GoInt64 0\<rparr>"
  let ?m' = "\<lparr>OrmStore = ''t'', OrmProps = [\<lparr>Name = ''id'', IsPk = True\<rparr>, \<lparr>Name = ''name'', IsPk = False\<rparr>],
       OrmPkProp = \<lparr>Name = ''id'', IsPk = True\<rparr>, OrmVals = [GoInt64 9, GoString ''Al''], OrmPk = GoInt64 9\<rparr>"
  let ?db = "\<lambda>(s::unit) (q::string) (a::go_value list). (\<lparr>RowErr = None, RowScan = Inr (GoInt64 5)\<rparr>, s)"
  let ?db' = "\<lambda>(s::unit) (q::string) (a::go_value list). (\<lparr>RowErr = None, RowScan = Inr (GoInt64 9)\<rparr>, s)"
  have w: "well_formed ?m" by (simp add: well_formed_def)
  have w': "well_formed ?m'" by (simp add: well_formed_def)
  have e: "isPkEmpty (OrmPk ?m) = Inr True" by simp
  have e': "isPkEmpty (OrmPk ?m') = Inr False" by simp
  have u: "[1..1] = [1::int]" "[1..2] = [1, 2::int]" by (simp_all add: upto.simps [of 1])
  note t = Put_iter_insert [OF w e, of ?db "()"]
  note t' = Put_iter_insert [OF w' e', of ?db' "()"]
  have s1: "fst (Put_iter ?db () ?m) = [(''INSERT INTO t (name) VALUES ($1) RETURNING id'', [GoString ''Bob''])]"
    using t by (simp add: insert_text_def u)
  have s2: "Put_iter ?db () ?m = ([(''INSERT INTO t (name) VALUES ($1) RETURNING id'', [GoString ''Bob''])], (),
        ?m\<lparr>OrmPk := GoInt64 5\<rparr>, Inr None)"
    using t s1 by simp
  have s3: "fst (Put_iter ?db' () ?m') = [(''INSERT INTO t (id, name) VALUES ($1, $2) RETURNING id'', [GoInt64 9, GoString ''Al''])]"
    using t' by (simp add: insert_text_def u)
  show ?thesis using s2 s3 by simp
qed

text \<open>
  The same for the first model of a batch: its statement is the first that \<^verbatim>\<open>Put\<close>
  hands the engine, and after a successful scan the loop goes on with the next model.
\<close>

lemma Put_first:
  assumes "well_formed m" and "isPkEmpty (OrmPk m) = Inr serial"
  shows "take 1 (fst (Put db st (m # ms))) = [insert_statement m serial]"
    and "db st (fst (insert_statement m serial)) (snd (insert_statement m serial)) = (r, st') \<Longrightarrow>
         RowErr r = None \<Longrightarrow> RowScan r = Inr k \<Longrightarrow>
         Put db st (m # ms) =
           (insert_statement m serial # fst (Put db st' ms),
            fst (snd (Put db st' ms)),
            m\<lparr>OrmPk := k\<rparr> # fst (snd (snd (Put db st' ms))),
            snd (snd (snd (Put db st' ms))))"
proof -
  note eq = Put_iter_eq [OF assms, of db st]
  show "take 1 (fst (Put db st (m # ms))) = [insert_statement m serial]"
    by (simp add: eq split_beta Let_def split: option.splits sum.splits)
  show "Put db st (m # ms) =
           (insert_statement m serial # fst (Put db st' ms),
            fst (snd (Put db st' ms)),
            m\<lparr>OrmPk := k\<rparr> # fst (snd (snd (Put db st' ms))),
            snd (snd (snd (Put db st' ms))))"
    if "db st (fst (insert_statement m serial)) (snd (insert_statement m serial)) = (r, st')"
      "RowErr r = None" "RowScan r = Inr k"
    using that by (simp add: eq split_beta Let_def)
qed

text \<open>
  C6. A model whose primary key is an \<^verbatim>\<open>int\<close> is not inserted: the emptiness test
  panics on the key before \<^verbatim>\<open>Put\<close> builds any statement, so nothing is handed to the
  engine and no key is stored, whether the key is zero, as for a model that expects its
  key from the server, or not. The models after it in the batch are not reached.
\<close>

theorem Put_panics_on_int_key:
  "Put db st
     (\<lparr>OrmStore = ''t'',
       OrmProps = [\<lparr>Name = ''id'', IsPk = True\<rparr>, \<lparr>Name = ''name'', IsPk = False\<rparr>],
       OrmPkProp = \<lparr>Name = ''id'', IsPk = True\<rparr>,
       OrmVals = [GoInt 0, GoString ''Bob''], OrmPk = GoInt 0\<rparr> # ms)
     = ([], st,
        \<lparr>OrmStore = ''t'',
         OrmProps = [\<lparr>Name = ''id'', IsPk = True\<rparr>, \<lparr>Name = ''name'', IsPk = False\<rparr>],
         OrmPkProp = \<lparr>Name = ''id'', IsPk = True\<rparr>,
         OrmVals = [GoInt 0, GoString ''Bob''], OrmPk = GoInt 0\<rparr> # ms,
        Inl InterfaceConversion)
   \<and> Put db st (m\<lparr>OrmPk := GoInt w\<rparr> # ms)
     = ([], st, m\<lparr>OrmPk := GoInt w\<rparr> # ms, Inl InterfaceConversion)"
  by (simp add: Put_iter_def)

end
